theory Spec2Isabelle
  imports Complex_Main
begin

section \<open>Strings\<close>

text \<open>
  JavaScript strings are modelled as lists of 8-bit characters, so the model covers the
  paths whose UTF-16 code units are all below 256. The string methods the detector uses
  are written out as list functions of the same name.
\<close>

definition slash :: char where
  "slash = CHR ''/''"

definition dot :: char where
  "dot = CHR ''.''"

definition backslash :: char where
  "backslash = CHR 0x5C"

definition dquote :: char where
  "dquote = CHR 0x22"

definition backtick :: char where
  "backtick = CHR 0x60"

definition newline :: char where
  "newline = CHR 0x0A"

definition carriageReturn :: char where
  "carriageReturn = CHR 0x0D"

text \<open>\<open>s.startsWith(p)\<close>, \<open>s.endsWith(p)\<close> and \<open>s.includes(p)\<close>.\<close>

fun startsWith :: "string \<Rightarrow> string \<Rightarrow> bool" where
  "startsWith s [] = True"
| "startsWith [] (p # ps) = False"
| "startsWith (c # cs) (p # ps) = (c = p \<and> startsWith cs ps)"

definition endsWith :: "string \<Rightarrow> string \<Rightarrow> bool" where
  "endsWith s p = startsWith (rev s) (rev p)"

fun includesStr :: "string \<Rightarrow> string \<Rightarrow> bool" where
  "includesStr [] p = (p = [])"
| "includesStr (c # cs) p = (startsWith (c # cs) p \<or> includesStr cs p)"

text \<open>\<open>s.split(c)\<close> for a one-character separator: never empty, \<open>''''.split('/')\<close> is \<open>['''']\<close>.\<close>

fun splitOn :: "char \<Rightarrow> string \<Rightarrow> string list" where
  "splitOn c [] = [[]]"
| "splitOn c (x # xs) =
     (let r = splitOn c xs in if x = c then [] # r else (x # hd r) # tl r)"

text \<open>\<open>parts.join(sep)\<close>.\<close>

fun joinWith :: "string \<Rightarrow> string list \<Rightarrow> string" where
  "joinWith sep [] = []"
| "joinWith sep [x] = x"
| "joinWith sep (x # y # ys) = x @ sep @ joinWith sep (y # ys)"

text \<open>The decimal numeral a template string prints for a counter.\<close>

definition digitChar :: "nat \<Rightarrow> char" where
  "digitChar d = char_of (48 + d)"

fun showNat :: "nat \<Rightarrow> string" where
  "showNat n = (if n < 10 then [digitChar n] else showNat (n div 10) @ [digitChar (n mod 10)])"

declare showNat.simps [simp del]

section \<open>Node's path module\<close>

text \<open>
  \<open>path.parse\<close> of Node (POSIX flavour), which the detector imports as \<open>parsePath\<close>.
  Node scans the path from its end: trailing slashes are skipped, the last component is
  \<open>base\<close>, what precedes the slash in front of it is \<open>dir\<close>. The extension starts at the
  last dot of \<open>base\<close>, unless there is no dot, the last dot is the first character of
  \<open>base\<close>, or \<open>base\<close> is \<open>..\<close>. For an absolute path the scan stops before the leading
  slash and leaves Node's \<open>startPart\<close> at 0, so the \<open>..\<close> test (\<open>startDot === startPart + 1\<close>)
  fails for a \<open>..\<close> directly under the root: \<open>parse('/..')\<close> has name \<open>.\<close> and
  extension \<open>.\<close>.
\<close>

record parsedPath =
  p_root :: string
  p_dir :: string
  p_base :: string
  p_ext :: string
  p_name :: string

definition dropTrailingSlashes :: "string \<Rightarrow> string" where
  "dropTrailingSlashes s = rev (dropWhile (\<lambda>c. c = slash) (rev s))"

definition lastComponent :: "string \<Rightarrow> string" where
  "lastComponent s = rev (takeWhile (\<lambda>c. c \<noteq> slash) (rev s))"

definition beforeLastComponent :: "string \<Rightarrow> string" where
  "beforeLastComponent s = rev (dropWhile (\<lambda>c. c \<noteq> slash) (rev s))"

text \<open>
  The name and the extension of a base. \<open>dotDotIsName\<close> says whether Node's test for a
  base \<open>..\<close> can succeed (it cannot directly under the root).
\<close>

definition splitExtension :: "bool \<Rightarrow> string \<Rightarrow> string \<times> string" where
  "splitExtension dotDotIsName b =
     (let afterDot = rev (takeWhile (\<lambda>c. c \<noteq> dot) (rev b));
          upToDot = rev (dropWhile (\<lambda>c. c \<noteq> dot) (rev b))
      in if upToDot = [] then (b, [])
         else if butlast upToDot = [] then (b, [])
         else if dotDotIsName \<and> b = [dot, dot] then (b, [])
         else (butlast upToDot, dot # afterDot))"

definition parsePath :: "string \<Rightarrow> parsedPath" where
  "parsePath path =
     (if path = [] then \<lparr>p_root = [], p_dir = [], p_base = [], p_ext = [], p_name = []\<rparr>
      else
        let isAbsolute = (hd path = slash);
            root = (if isAbsolute then [slash] else []);
            body = (if isAbsolute then tl path else path);
            trimmed = dropTrailingSlashes body;
            b = lastComponent trimmed;
            front = beforeLastComponent trimmed;
            d = (if front \<noteq> [] then root @ butlast front else root);
            (n, e) = (if trimmed = [] then ([], [])
                      else splitExtension (\<not> (isAbsolute \<and> front = [])) b)
        in \<lparr>p_root = root, p_dir = d, p_base = b, p_ext = e, p_name = n\<rparr>)"

text \<open>
  \<open>path.extname\<close> runs the same scan over the whole string, leading slash included, so
  its \<open>..\<close> test has no exception.
\<close>

definition extname :: "string \<Rightarrow> string" where
  "extname path =
     (let trimmed = dropTrailingSlashes path
      in if trimmed = [] then [] else snd (splitExtension True (lastComponent trimmed)))"

section \<open>Path and segment utilities\<close>

text \<open>
  \<open>getSegmentName\<close>: the text between the brackets of a segment whose name, without its
  extension, starts with \<open>[\<close> and ends with \<open>]\<close>; \<open>None\<close> is the source's \<open>null\<close>.
  \<open>name.slice(1, -1)\<close> drops the first and the last character.
\<close>

definition getSegmentName :: "string \<Rightarrow> string option" where
  "getSegmentName segment =
     (let n = p_name (parsePath segment)
      in if startsWith n ''['' \<and> endsWith n '']'' then Some (butlast (tl n)) else None)"

text \<open>\<open>joinPath\<close>: join with slashes, then collapse every run of slashes into one.\<close>

fun collapseSlashes :: "string \<Rightarrow> string" where
  "collapseSlashes [] = []"
| "collapseSlashes [c] = [c]"
| "collapseSlashes (c # d # cs) =
     (if c = slash \<and> d = slash then collapseSlashes (d # cs) else c # collapseSlashes (d # cs))"

definition joinPath :: "string list \<Rightarrow> string" where
  "joinPath segments = collapseSlashes (joinWith [slash] segments)"

text \<open>
  \<open>escapeName\<close>: for each character of \<open>[]^$.|?*+()\<close> in turn, put a backslash in front
  of every occurrence of it.
\<close>

definition escapeChar :: "char \<Rightarrow> string \<Rightarrow> string" where
  "escapeChar c s = concat (map (\<lambda>x. if x = c then [backslash, c] else [x]) s)"

definition special :: string where
  "special = ''[]^$.|?*+()''"

definition escapeName :: "string \<Rightarrow> string" where
  "escapeName n = foldl (\<lambda>acc c. escapeChar c acc) n special"

text \<open>
  \<open>part.replace(/\[.*\]/, '1')\<close>: the leftmost \<open>[\<close> that is followed, with no line
  terminator in between, by a \<open>]\<close> starts the match; the match is greedy and ends at the
  last such \<open>]\<close>. Only the first match is replaced.
\<close>

definition isLineTerminator :: "char \<Rightarrow> bool" where
  "isLineTerminator c = (c = newline \<or> c = carriageReturn)"

text \<open>The rest of a match after its \<open>[\<close>: what follows the last \<open>]\<close> of the current line.\<close>

definition afterGreedyBracket :: "string \<Rightarrow> string option" where
  "afterGreedyBracket s =
     (let line = takeWhile (\<lambda>c. \<not> isLineTerminator c) s;
          rest = dropWhile (\<lambda>c. \<not> isLineTerminator c) s;
          tailRev = takeWhile (\<lambda>c. c \<noteq> CHR '']'') (rev line)
      in if CHR '']'' \<in> set line then Some (rev tailRev @ rest) else None)"

fun replaceBracket :: "string \<Rightarrow> string" where
  "replaceBracket [] = []"
| "replaceBracket (c # cs) =
     (if c = CHR ''[''
      then (case afterGreedyBracket cs of
              Some rest \<Rightarrow> ''1'' @ rest
            | None \<Rightarrow> c # replaceBracket cs)
      else c # replaceBracket cs)"

definition getAbsolutePath :: "string \<Rightarrow> string" where
  "getAbsolutePath unresolvedPath =
     (let p = parsePath unresolvedPath;
          parts = splitOn slash (joinPath [p_dir p, p_name p])
      in joinWith [slash] (map replaceBracket parts))"

section \<open>Route compiler\<close>

text \<open>
  A route of \<open>@now/routing-utils\<close>: every property is optional, \<open>None\<close> is an absent
  property. \<open>r_location\<close> is \<open>headers.Location\<close>.
\<close>

record route =
  r_src :: "string option"
  r_dest :: "string option"
  r_check :: "bool option"
  r_continue :: "bool option"
  r_status :: "nat option"
  r_location :: "string option"
  r_handle :: "string option"

definition emptyRoute :: route where
  "emptyRoute = \<lparr>r_src = None, r_dest = None, r_check = None, r_continue = None,
     r_status = None, r_location = None, r_handle = None\<rparr>"

text \<open>
  The last segment when it is no placeholder: the array \<open>names\<close> of the alternatives
  that \<open>filter(Boolean)\<close> keeps (the non-empty ones), and the pattern built from it.
\<close>

definition segmentAlternatives :: "bool \<Rightarrow> bool \<Rightarrow> string \<Rightarrow> string list" where
  "segmentAlternatives featHandleMiss cleanUrls segment =
     (let fileName = p_name (parsePath segment);
          ext = p_ext (parsePath segment);
          isIndex = (fileName = ''index'');
          prefix = (if isIndex then ''/'' else [])
      in filter (\<lambda>s. s \<noteq> [])
           [if isIndex then prefix else fileName @ ''/'',
            prefix @ escapeName fileName,
            if featHandleMiss \<and> cleanUrls then []
            else prefix @ escapeName fileName @ escapeName ext])"

definition lastSegmentPattern :: "bool \<Rightarrow> bool \<Rightarrow> string \<Rightarrow> string" where
  "lastSegmentPattern featHandleMiss cleanUrls segment =
     (let isIndex = (p_name (parsePath segment) = ''index'')
      in ''('' @ joinWith ''|'' (segmentAlternatives featHandleMiss cleanUrls segment) @ '')''
         @ (if isIndex then ''?'' else []))"

text \<open>
  The state of the \<open>parts.map\<close> callback of \<open>createRouteFromPath\<close>: the capture counter,
  the query bindings pushed so far and the \<open>isDynamic\<close> flag.
\<close>

record routeAcc =
  ra_counter :: nat
  ra_query :: "string list"
  ra_isDynamic :: bool

fun mapSegments :: "bool \<Rightarrow> bool \<Rightarrow> string list \<Rightarrow> routeAcc \<Rightarrow> string list \<times> routeAcc" where
  "mapSegments featHandleMiss cleanUrls [] acc = ([], acc)"
| "mapSegments featHandleMiss cleanUrls (segment # rest) acc =
     (case getSegmentName segment of
        Some name \<Rightarrow>
          (let acc' = \<lparr>ra_counter = ra_counter acc + 1,
                       ra_query = ra_query acc @ [name @ ''=$'' @ showNat (ra_counter acc)],
                       ra_isDynamic = True\<rparr>;
               (ps, acc'') = mapSegments featHandleMiss cleanUrls rest acc'
           in (''([^/]+)'' # ps, acc''))
      | None \<Rightarrow>
          (let (ps, acc') = mapSegments featHandleMiss cleanUrls rest acc
           in ((if rest = [] then lastSegmentPattern featHandleMiss cleanUrls segment
                else segment) # ps, acc')))"

record routeResult =
  rr_route :: route
  rr_isDynamic :: bool

definition createRouteFromPath :: "string \<Rightarrow> bool \<Rightarrow> bool \<Rightarrow> routeResult" where
  "createRouteFromPath filePath featHandleMiss cleanUrls =
     (let parts = splitOn slash filePath;
          (srcParts, acc) = mapSegments featHandleMiss cleanUrls parts
             \<lparr>ra_counter = 1, ra_query = [], ra_isDynamic = False\<rparr>;
          fileName = p_name (parsePath filePath);
          ext = p_ext (parsePath filePath);
          isIndex = (fileName = ''index'');
          queryString = (if ra_query acc \<noteq> [] then ''?'' else []) @ joinWith ''&'' (ra_query acc);
          src = (if isIndex
                 then ''^/'' @ joinWith ''/'' (butlast srcParts) @ last srcParts @ ''$''
                 else ''^/'' @ joinWith ''/'' srcParts @ ''$'');
          r = (if featHandleMiss
               then (let extensionless =
                           (if ext \<noteq> [] then take (length filePath - length ext) filePath
                            else filePath)
                     in emptyRoute\<lparr>r_src := Some src,
                          r_dest := Some (''/'' @ extensionless @ queryString),
                          r_check := Some True\<rparr>)
               else emptyRoute\<lparr>r_src := Some src,
                      r_dest := Some (''/'' @ filePath @ queryString)\<rparr>)
      in \<lparr>rr_route = r, rr_isDynamic = ra_isDynamic acc\<rparr>)"

section \<open>Conflict detector\<close>

text \<open>
  \<open>getConflictingSegment\<close>: the loop over the segments with the set of names seen so far.
  A name is added only when it is truthy (not the empty string).
\<close>

fun conflictLoop :: "string list \<Rightarrow> string set \<Rightarrow> string option" where
  "conflictLoop [] segments = None"
| "conflictLoop (segment # rest) segments =
     (case getSegmentName segment of
        Some name \<Rightarrow>
          if name \<in> segments then Some name
          else conflictLoop rest (if name \<noteq> [] then insert name segments else segments)
      | None \<Rightarrow> conflictLoop rest segments)"

definition getConflictingSegment :: "string \<Rightarrow> string option" where
  "getConflictingSegment filePath = conflictLoop (splitOn slash filePath) {}"

text \<open>A segment name is truthy when it is neither \<open>null\<close> nor the empty string.\<close>

definition truthyName :: "string option \<Rightarrow> bool" where
  "truthyName n = (case n of Some s \<Rightarrow> s \<noteq> [] | None \<Rightarrow> False)"

text \<open>
  The loop of \<open>partiallyMatches\<close> over the shorter path, \<open>long[index]\<close> at its side.
  \<open>long\<close> has at least as many segments as \<open>short\<close>, so \<open>long[index]\<close> is always there.
\<close>

fun partialLoop :: "string list \<Rightarrow> string list \<Rightarrow> bool" where
  "partialLoop [] long = False"
| "partialLoop (segmentShort # short) [] = False"
| "partialLoop (segmentShort # short) (segmentLong # long) =
     (let nameLong = getSegmentName segmentLong;
          nameShort = getSegmentName segmentShort
      in if segmentShort \<noteq> segmentLong \<and> (\<not> truthyName nameLong \<or> \<not> truthyName nameShort)
         then False
         else if nameLong \<noteq> nameShort then True
         else partialLoop short long)"

definition partiallyMatches :: "string \<Rightarrow> string \<Rightarrow> bool" where
  "partiallyMatches pathA pathB =
     (let partsA = splitOn slash pathA;
          partsB = splitOn slash pathB;
          long = (if length partsA > length partsB then partsA else partsB);
          short = (if length partsA > length partsB then partsB else partsA)
      in partialLoop short long)"

text \<open>
  \<open>pathOccurrences\<close> with its cache: a cached value is used when it is truthy, otherwise
  the path is normalised again and stored.
\<close>

type_synonym pathCache = "string \<rightharpoonup> string"

definition cachedAbsolutePath :: "string \<Rightarrow> pathCache \<Rightarrow> string \<times> pathCache" where
  "cachedAbsolutePath file cache =
     (case cache file of
        Some v \<Rightarrow> if v \<noteq> [] then (v, cache)
                  else (getAbsolutePath file, cache(file \<mapsto> getAbsolutePath file))
      | None \<Rightarrow> (getAbsolutePath file, cache(file \<mapsto> getAbsolutePath file)))"

fun occurrencesLoop :: "string \<Rightarrow> string \<Rightarrow> string list \<Rightarrow> string list \<Rightarrow> pathCache
    \<Rightarrow> string list \<times> pathCache" where
  "occurrencesLoop fileName currentAbsolutePath [] prev cache = (prev, cache)"
| "occurrencesLoop fileName currentAbsolutePath (file # files) prev cache =
     (if file = fileName then occurrencesLoop fileName currentAbsolutePath files prev cache
      else
        let (absolutePath, cache') = cachedAbsolutePath file cache
        in if absolutePath = currentAbsolutePath
           then occurrencesLoop fileName currentAbsolutePath files (prev @ [file]) cache'
           else if partiallyMatches fileName file
           then occurrencesLoop fileName currentAbsolutePath files (prev @ [file]) cache'
           else occurrencesLoop fileName currentAbsolutePath files prev cache')"

definition pathOccurrences :: "string \<Rightarrow> string list \<Rightarrow> pathCache \<Rightarrow> string list \<times> pathCache" where
  "pathOccurrences fileName files cache =
     (let (currentAbsolutePath, cache') = cachedAbsolutePath fileName cache
      in occurrencesLoop fileName currentAbsolutePath files [] cache')"

definition concatArrayOfText :: "string list \<Rightarrow> string" where
  "concatArrayOfText texts =
     (if length texts \<le> 2 then joinWith '' and '' texts
      else joinWith '', '' (butlast texts) @ '', and '' @ last texts)"

section \<open>Function configuration\<close>

text \<open>
  A JavaScript number: a finite value (every finite double is a rational), \<open>NaN\<close> or an
  infinity. The operators are the ones \<open>validateFunctions\<close> applies to a number.
\<close>

datatype number = Fin rat | NaN | PosInf | NegInf

fun numLess :: "number \<Rightarrow> number \<Rightarrow> bool" where
  "numLess (Fin x) (Fin y) = (x < y)"
| "numLess NaN b = False"
| "numLess a NaN = False"
| "numLess NegInf NegInf = False"
| "numLess NegInf b = True"
| "numLess a NegInf = False"
| "numLess PosInf b = False"
| "numLess a PosInf = True"

text \<open>\<open>x % d\<close> for a finite non-zero \<open>d\<close>: the remainder has the sign of \<open>x\<close>.\<close>

definition truncRat :: "rat \<Rightarrow> int" where
  "truncRat q = (if 0 \<le> q then \<lfloor>q\<rfloor> else \<lceil>q\<rceil>)"

fun numRem :: "number \<Rightarrow> rat \<Rightarrow> number" where
  "numRem (Fin x) d = Fin (x - d * of_int (truncRat (x / d)))"
| "numRem a d = NaN"

text \<open>\<open>x !== 0\<close> and \<open>Number.isInteger(x)\<close>.\<close>

fun numIsNotZero :: "number \<Rightarrow> bool" where
  "numIsNotZero (Fin x) = (x \<noteq> 0)"
| "numIsNotZero a = True"

fun isInteger :: "number \<Rightarrow> bool" where
  "isInteger (Fin x) = (x = of_int \<lfloor>x\<rfloor>)"
| "isInteger a = False"

text \<open>
  A value whose type the source tests with \<open>typeof v !== 'string'\<close>: a string, or any other
  value, of which only the truthiness is kept.
\<close>

datatype jsval = JString string | JNonString bool

fun isString :: "jsval \<Rightarrow> bool" where
  "isString (JString s) = True"
| "isString (JNonString t) = False"

fun truthyVal :: "jsval \<Rightarrow> bool" where
  "truthyVal (JString s) = (s \<noteq> [])"
| "truthyVal (JNonString t) = t"

text \<open>
  The value of one entry of \<open>options.functions\<close>. For an object, \<open>None\<close> is a property that
  is \<open>undefined\<close>; \<open>f_otherKeys\<close> counts the own keys that hold none of the five values (a
  key of another name, or one of the five set to \<open>undefined\<close>). \<open>runtime\<close>, \<open>memory\<close> and
  \<open>maxDuration\<close> have their declared types. A value that is no object keeps its
  truthiness only.
\<close>

record funcConfig =
  f_runtime :: "string option"
  f_memory :: "number option"
  f_maxDuration :: "number option"
  f_includeFiles :: "jsval option"
  f_excludeFiles :: "jsval option"
  f_otherKeys :: nat

datatype funcValue = NotAnObject bool | FuncObject funcConfig

type_synonym builderFunctions = "(string \<times> funcValue) list"

text \<open>\<open>Object.keys(func).length\<close>.\<close>

definition countKeys :: "funcConfig \<Rightarrow> nat" where
  "countKeys f =
     (if f_runtime f = None then 0 else 1) + (if f_memory f = None then 0 else 1)
     + (if f_maxDuration f = None then 0 else 1) + (if f_includeFiles f = None then 0 else 1)
     + (if f_excludeFiles f = None then 0 else 1) + f_otherKeys f"

record errorResponse =
  e_code :: string
  e_message :: string

text \<open>
  The libraries the detector calls and the model takes as given: \<open>minimatch(file, glob)\<close>,
  \<open>semver.valid(tag)\<close> (whether the result is truthy) and \<open>a.localeCompare(b)\<close>.
\<close>

record env =
  minimatch :: "string \<Rightarrow> string \<Rightarrow> bool"
  validSemver :: "string \<Rightarrow> bool"
  localeCompare :: "string \<Rightarrow> string \<Rightarrow> int"

text \<open>\<open>`${runtime}`.split('@').pop()\<close>: the text after the last \<open>@\<close>.\<close>

definition runtimeTag :: "string \<Rightarrow> string" where
  "runtimeTag runtime = last (splitOn (CHR ''@'') runtime)"

text \<open>The body of the loop of \<open>validateFunctions\<close> for one entry, then the loop.\<close>

definition validateFunction :: "env \<Rightarrow> string \<Rightarrow> funcValue \<Rightarrow> errorResponse option" where
  "validateFunction E path func =
     (if length path > 256
      then Some \<lparr>e_code = ''invalid_function_glob'',
                 e_message = ''Function globs must be less than 256 characters long.''\<rparr>
      else case func of
        NotAnObject t \<Rightarrow>
          Some \<lparr>e_code = ''invalid_function'', e_message = ''Function must be an object.''\<rparr>
      | FuncObject f \<Rightarrow>
          if countKeys f = 0
          then Some \<lparr>e_code = ''invalid_function'',
                     e_message = ''Function must contain at least one property.''\<rparr>
          else if (case f_maxDuration f of None \<Rightarrow> False
                   | Some m \<Rightarrow> numLess m (Fin 1) \<or> numLess (Fin 900) m \<or> \<not> isInteger m)
          then Some \<lparr>e_code = ''invalid_function_duration'',
                     e_message = ''Functions must have a duration between 1 and 900.''\<rparr>
          else if (case f_memory f of None \<Rightarrow> False
                   | Some m \<Rightarrow> numLess m (Fin 128) \<or> numLess (Fin 3008) m
                                \<or> numIsNotZero (numRem m 64))
          then Some \<lparr>e_code = ''invalid_function_memory'',
                     e_message = ''Functions must have a memory value between 128 and 3008 in steps of 64.''\<rparr>
          else if startsWith path ''/''
          then Some \<lparr>e_code = ''invalid_function_source'',
                     e_message = ''The function path '' @ [dquote] @ path @ [dquote]
                       @ '' is invalid. The path must be relative to your project root and therefore cannot start with a slash.''\<rparr>
          else if (case f_runtime f of None \<Rightarrow> False
                   | Some r \<Rightarrow> runtimeTag r = [] \<or> \<not> validSemver E (runtimeTag r))
          then Some \<lparr>e_code = ''invalid_function_runtime'',
                     e_message = ''Function Runtimes must have a valid version, for example ''
                       @ [backtick] @ ''now-php@1.0.0'' @ [backtick] @ ''.''\<rparr>
          else if (case f_includeFiles f of None \<Rightarrow> False | Some v \<Rightarrow> \<not> isString v)
          then Some \<lparr>e_code = ''invalid_function_property'',
                     e_message = ''The property '' @ [backtick] @ ''includeFiles'' @ [backtick]
                       @ '' must be a string.''\<rparr>
          else if (case f_excludeFiles f of None \<Rightarrow> False | Some v \<Rightarrow> \<not> isString v)
          then Some \<lparr>e_code = ''invalid_function_property'',
                     e_message = ''The property '' @ [backtick] @ ''excludeFiles'' @ [backtick]
                       @ '' must be a string.''\<rparr>
          else None)"

fun validateFunctions :: "env \<Rightarrow> builderFunctions \<Rightarrow> errorResponse option" where
  "validateFunctions E [] = None"
| "validateFunctions E ((path, func) # rest) =
     (case validateFunction E path func of
        Some err \<Rightarrow> Some err
      | None \<Rightarrow> validateFunctions E rest)"

section \<open>Options, manifest and builders\<close>

text \<open>
  For a setting of type \<open>string | null | undefined\<close>, \<open>None\<close> is \<open>null\<close> or \<open>undefined\<close>: the
  source never tells them apart. An absent \<open>functions\<close> is the empty list, and an absent
  \<open>projectSettings\<close> has no setting. \<open>o_functions\<close> lists the entries in the order
  \<open>Object.entries\<close> gives them.
\<close>

record projectSettings =
  ps_framework :: "string option"
  ps_devCommand :: "string option"
  ps_buildCommand :: "string option"
  ps_outputDirectory :: "string option"

record options =
  o_tag :: "string option"
  o_functions :: builderFunctions
  o_ignoreBuildScript :: bool
  o_projectSettings :: projectSettings
  o_cleanUrls :: bool
  o_trailingSlash :: bool
  o_featHandleMiss :: bool

record packageJson =
  pkg_dependencies :: "string \<rightharpoonup> string"
  pkg_devDependencies :: "string \<rightharpoonup> string"
  pkg_scripts :: "string \<rightharpoonup> string"

record config =
  c_zeroConfig :: bool
  c_functions :: "builderFunctions option"
  c_includeFiles :: "jsval option"
  c_excludeFiles :: "jsval option"
  c_framework :: "string option"
  c_devCommand :: "string option"
  c_buildCommand :: "string option"
  c_outputDirectory :: "string option"

definition zeroConfig :: config where
  "zeroConfig = \<lparr>c_zeroConfig = True, c_functions = None, c_includeFiles = None,
     c_excludeFiles = None, c_framework = None, c_devCommand = None, c_buildCommand = None,
     c_outputDirectory = None\<rparr>"

record builder =
  b_use :: string
  b_src :: string
  b_config :: config

text \<open>A string setting is truthy when it is present and not empty.\<close>

definition truthy :: "string option \<Rightarrow> bool" where
  "truthy v = (case v of Some s \<Rightarrow> s \<noteq> [] | None \<Rightarrow> False)"

definition withTag :: "options \<Rightarrow> string" where
  "withTag opts = (case o_tag opts of Some t \<Rightarrow> if t \<noteq> [] then ''@'' @ t else [] | None \<Rightarrow> [])"

definition getApiMatches :: "options \<Rightarrow> builder list" where
  "getApiMatches opts =
     [\<lparr>b_use = ''@now/node'' @ withTag opts, b_src = ''api/**/*.js'', b_config = zeroConfig\<rparr>,
      \<lparr>b_use = ''@now/node'' @ withTag opts, b_src = ''api/**/*.ts'', b_config = zeroConfig\<rparr>,
      \<lparr>b_use = ''@now/go'' @ withTag opts, b_src = ''api/**/!(*_test).go'', b_config = zeroConfig\<rparr>,
      \<lparr>b_use = ''@now/python'' @ withTag opts, b_src = ''api/**/*.py'', b_config = zeroConfig\<rparr>,
      \<lparr>b_use = ''@now/ruby'' @ withTag opts, b_src = ''api/**/*.rb'', b_config = zeroConfig\<rparr>]"

text \<open>
  \<open>getFunction\<close>: the first key that is the file or matches it, and its value. A key that
  is the empty string is falsy and gives no function.
\<close>

definition getFunction :: "env \<Rightarrow> string \<Rightarrow> options \<Rightarrow> string option \<times> funcValue option" where
  "getFunction E fileName opts =
     (let keys = map fst (o_functions opts)
      in if keys = [] then (None, None)
         else case find (\<lambda>key. key = fileName \<or> minimatch E fileName key) keys of
           Some func \<Rightarrow>
             if func \<noteq> [] then (Some func, map_of (o_functions opts) func) else (None, None)
         | None \<Rightarrow> (None, None))"

fun truthyFunc :: "funcValue \<Rightarrow> bool" where
  "truthyFunc (NotAnObject t) = t"
| "truthyFunc (FuncObject f) = True"

text \<open>\<open>func && func.runtime\<close>, as the string it is when it is truthy.\<close>

definition funcRuntime :: "funcValue option \<Rightarrow> string option" where
  "funcRuntime func =
     (case func of
        Some (FuncObject f) \<Rightarrow> (if truthy (f_runtime f) then f_runtime f else None)
      | _ \<Rightarrow> None)"

definition funcIncludeFiles :: "funcValue \<Rightarrow> jsval option" where
  "funcIncludeFiles func = (case func of FuncObject f \<Rightarrow> f_includeFiles f | NotAnObject t \<Rightarrow> None)"

definition funcExcludeFiles :: "funcValue \<Rightarrow> jsval option" where
  "funcExcludeFiles func = (case func of FuncObject f \<Rightarrow> f_excludeFiles f | NotAnObject t \<Rightarrow> None)"

definition truthyOpt :: "jsval option \<Rightarrow> bool" where
  "truthyOpt v = (case v of Some x \<Rightarrow> truthyVal x | None \<Rightarrow> False)"

definition maybeGetApiBuilder :: "env \<Rightarrow> string \<Rightarrow> builder list \<Rightarrow> options \<Rightarrow> builder option" where
  "maybeGetApiBuilder E fileName apiMatches opts =
     (if \<not> startsWith fileName ''api/'' then None
      else if includesStr fileName ''/.'' then None
      else if includesStr fileName ''/_'' then None
      else if includesStr fileName ''/node_modules/'' then None
      else if endsWith fileName ''.d.ts'' then None
      else
        let match = find (\<lambda>m. b_src m = fileName \<or> minimatch E fileName (b_src m)) apiMatches;
            (fnPattern, func) = getFunction E fileName opts;
            use = (case funcRuntime func of
                     Some r \<Rightarrow> Some r
                   | None \<Rightarrow> (case match of
                                Some m \<Rightarrow> if b_use m \<noteq> [] then Some (b_use m) else None
                              | None \<Rightarrow> None))
        in case use of
             None \<Rightarrow> None
           | Some u \<Rightarrow>
               let cfg =
                 (case (fnPattern, func) of
                    (Some pat, Some fv) \<Rightarrow>
                      if truthyFunc fv
                      then zeroConfig\<lparr>c_functions := Some [(pat, fv)],
                             c_includeFiles :=
                               (if truthyOpt (funcIncludeFiles fv) then funcIncludeFiles fv else None),
                             c_excludeFiles :=
                               (if truthyOpt (funcExcludeFiles fv) then funcExcludeFiles fv else None)\<rparr>
                      else zeroConfig
                  | _ \<Rightarrow> zeroConfig)
               in Some \<lparr>b_use = u, b_src = fileName, b_config = cfg\<rparr>)"

definition hasBuildScript :: "packageJson option \<Rightarrow> bool" where
  "hasBuildScript pkg =
     (case pkg of Some p \<Rightarrow> truthy (pkg_scripts p ''build'') | None \<Rightarrow> False)"

section \<open>Sorting\<close>

text \<open>
  \<open>Array.prototype.sort\<close> with a comparator: the sort is stable, and for a consistent
  comparator every stable sort returns the list of this insertion sort. The array is
  sorted in place and \<open>sort\<close> returns that same array.
\<close>

fun insertSorted :: "('a \<Rightarrow> 'a \<Rightarrow> int) \<Rightarrow> 'a \<Rightarrow> 'a list \<Rightarrow> 'a list" where
  "insertSorted cmp x [] = [x]"
| "insertSorted cmp x (y # ys) =
     (if cmp x y \<le> 0 then x # y # ys else y # insertSorted cmp x ys)"

definition jsSort :: "('a \<Rightarrow> 'a \<Rightarrow> int) \<Rightarrow> 'a list \<Rightarrow> 'a list" where
  "jsSort cmp xs = foldr (insertSorted cmp) xs []"

definition sortFiles :: "env \<Rightarrow> string \<Rightarrow> string \<Rightarrow> int" where
  "sortFiles E fileA fileB = localeCompare E fileA fileB"

text \<open>The reducer \<open>countSegments\<close> starts again from 0 at every segment that is no placeholder.\<close>

definition countSegments :: "nat \<Rightarrow> string \<Rightarrow> nat" where
  "countSegments prev segment = (if truthyName (getSegmentName segment) then prev + 1 else 0)"

definition sortFilesBySegmentCount :: "string \<Rightarrow> string \<Rightarrow> int" where
  "sortFilesBySegmentCount fileA fileB =
     (let lengthA = length (splitOn slash fileA);
          lengthB = length (splitOn slash fileB)
      in if lengthA > lengthB then - 1
         else if lengthA < lengthB then 1
         else
           let segmentLengthA = foldl countSegments 0 (splitOn slash fileA);
               segmentLengthB = foldl countSegments 0 (splitOn slash fileB)
           in if segmentLengthA > segmentLengthB then 1
              else if segmentLengthA < segmentLengthB then - 1
              else 0)"

text \<open>
  The content of the array \<open>files\<close> when the loop of \<open>detectBuilders\<close> starts.
  \<open>sortedFiles = files.sort(sortFiles)\<close> and \<open>apiSortedFiles = files.sort(sortFilesBySegmentCount)\<close>
  both name the array \<open>files\<close> itself, which the second call sorts again in place: the
  loop, \<open>getApiRoute\<close> and \<open>detectFrontBuilder\<close> all read this one list.
\<close>

definition filesAfterSorting :: "env \<Rightarrow> string list \<Rightarrow> string list" where
  "filesAfterSorting E files = jsSort sortFilesBySegmentCount (jsSort (sortFiles E) files)"

section \<open>Frontend builder and unused functions\<close>

definition nextDependency :: "packageJson \<Rightarrow> bool" where
  "nextDependency p = truthy ((pkg_dependencies p ++ pkg_devDependencies p) ''next'')"

definition entrypoints :: "string list" where
  "entrypoints = [''package.json'', ''config.yaml'', ''config.toml'', ''config.json'',
     ''_config.yml'', ''config.yml'', ''config.rb'']"

text \<open>
  \<open>detectFrontBuilder\<close>. The entries of \<open>options.functions\<close> that no API builder used go
  into the configuration, each as the copy \<open>{ ...func }\<close>; the function runs only once
  \<open>validateFunctions\<close> has found every value to be an object, whose copy has the same
  properties.
\<close>

definition detectFrontBuilder :: "packageJson option \<Rightarrow> string list \<Rightarrow> string list
    \<Rightarrow> string option \<Rightarrow> options \<Rightarrow> builder" where
  "detectFrontBuilder pkg files usedFunctions fallbackEntrypoint opts =
     (let settings = o_projectSettings opts;
          unused = filter (\<lambda>(key, func). key \<notin> set usedFunctions) (o_functions opts);
          cfg = zeroConfig\<lparr>
            c_framework := (if truthy (ps_framework settings) then ps_framework settings else None),
            c_devCommand := (if truthy (ps_devCommand settings) then ps_devCommand settings else None),
            c_buildCommand :=
              (if truthy (ps_buildCommand settings) then ps_buildCommand settings else None),
            c_outputDirectory :=
              (if truthy (ps_outputDirectory settings) then ps_outputDirectory settings else None),
            c_functions := (if unused = [] then None else Some unused)\<rparr>;
          framework = (case pkg of
                         Some p \<Rightarrow> if nextDependency p then Some ''nextjs'' else ps_framework settings
                       | None \<Rightarrow> ps_framework settings)
      in if framework = Some ''nextjs''
         then \<lparr>b_use = ''@now/next'' @ withTag opts, b_src = ''package.json'', b_config = cfg\<rparr>
         else
           let found = find (\<lambda>file. file \<in> set entrypoints) files;
               source =
                 (case pkg of
                    Some p \<Rightarrow> ''package.json''
                  | None \<Rightarrow>
                      if truthy found then (case found of Some file \<Rightarrow> file | None \<Rightarrow> [])
                      else if truthy fallbackEntrypoint
                      then (case fallbackEntrypoint of Some file \<Rightarrow> file | None \<Rightarrow> [])
                      else ''package.json'')
           in \<lparr>b_use = ''@now/static-build'' @ withTag opts,
               b_src = (if source \<noteq> [] then source else ''package.json''),
               b_config = cfg\<rparr>)"

definition getMissingBuildScriptError :: errorResponse where
  "getMissingBuildScriptError =
     \<lparr>e_code = ''missing_build_script'',
      e_message = ''Your '' @ [backtick] @ ''package.json'' @ [backtick] @ '' file is missing a ''
        @ [backtick] @ ''build'' @ [backtick] @ '' property inside the '' @ [backtick] @ ''scripts''
        @ [backtick] @ '' property.'' @ [newline]
        @ ''More details: https://vercel.com/docs/v2/platform/frequently-asked-questions#missing-build-script''\<rparr>"

text \<open>
  \<open>checkUnusedFunctions\<close>. With a Next.js frontend the loop over the unused keys deletes
  the keys under \<open>pages/\<close> or \<open>src/pages\<close> and returns at the first other key.
\<close>

fun nextUnusedLoop :: "string list \<Rightarrow> errorResponse option" where
  "nextUnusedLoop [] = None"
| "nextUnusedLoop (fnKey # rest) =
     (if startsWith fnKey ''pages/'' \<or> startsWith fnKey ''src/pages'' then nextUnusedLoop rest
      else Some \<lparr>e_code = ''unused_function'',
                 e_message = ''The function for '' @ fnKey @ '' can't be handled by any builder''\<rparr>)"

definition checkUnusedFunctions :: "builder option \<Rightarrow> string list \<Rightarrow> options
    \<Rightarrow> errorResponse option" where
  "checkUnusedFunctions frontendBuilder usedFunctions opts =
     (let unusedFunctions = filter (\<lambda>key. key \<notin> set usedFunctions) (map fst (o_functions opts));
          unusedError = (\<lambda>keys.
            case keys of
              [] \<Rightarrow> None
            | unusedFunction # others \<Rightarrow>
                Some \<lparr>e_code = ''unused_function'',
                      e_message = ''The function for '' @ unusedFunction
                        @ '' can't be handled by any builder. ''
                        @ ''Make sure it is inside the api/ directory.''\<rparr>)
      in if unusedFunctions = [] then None
         else case frontendBuilder of
           Some fb \<Rightarrow>
             if startsWith (b_use fb) ''@now/next''
             then (case nextUnusedLoop unusedFunctions of
                     Some err \<Rightarrow> Some err
                   | None \<Rightarrow>
                       unusedError (filter (\<lambda>fnKey. \<not> (startsWith fnKey ''pages/''
                                       \<or> startsWith fnKey ''src/pages'')) unusedFunctions))
             else unusedError unusedFunctions
         | None \<Rightarrow> unusedError unusedFunctions)"

section \<open>API routes\<close>

record apiRouteResult =
  ar_apiRoute :: "route option"
  ar_isDynamic :: bool
  ar_routeError :: "errorResponse option"

definition getApiRoute :: "string \<Rightarrow> string list \<Rightarrow> options \<Rightarrow> pathCache
    \<Rightarrow> apiRouteResult \<times> pathCache" where
  "getApiRoute fileName sortedFiles opts absolutePathCache =
     (case getConflictingSegment fileName of
        Some conflictingSegment \<Rightarrow>
          (\<lparr>ar_apiRoute = None, ar_isDynamic = False,
            ar_routeError = Some
              \<lparr>e_code = ''conflicting_path_segment'',
               e_message = ''The segment '' @ [dquote] @ conflictingSegment @ [dquote]
                 @ '' occurs more than one time in your path '' @ [dquote] @ fileName @ [dquote]
                 @ ''. Please make sure that every segment in a path is unique.''\<rparr>\<rparr>,
           absolutePathCache)
      | None \<Rightarrow>
          let (occurrences, cache') = pathOccurrences fileName sortedFiles absolutePathCache
          in if length occurrences > 0
             then
               (let messagePaths =
                      concatArrayOfText (map (\<lambda>name. [dquote] @ name @ [dquote]) occurrences)
                in (\<lparr>ar_apiRoute = None, ar_isDynamic = False,
                     ar_routeError = Some
                       \<lparr>e_code = ''conflicting_file_path'',
                        e_message = ''Two or more files have conflicting paths or names. ''
                          @ ''Please make sure path segments and filenames, without their extension, are unique. ''
                          @ ''The path '' @ [dquote] @ fileName @ [dquote] @ '' has conflicts with ''
                          @ messagePaths @ ''.''\<rparr>\<rparr>,
                    cache'))
             else
               (let out = createRouteFromPath fileName (o_featHandleMiss opts) (o_cleanUrls opts)
                in (\<lparr>ar_apiRoute = Some (rr_route out), ar_isDynamic = rr_isDynamic out,
                     ar_routeError = None\<rparr>,
                    cache')))"

section \<open>Route assembler\<close>

text \<open>\<open>detectApiExtensions\<close>: the set of the extensions, listed in insertion order.\<close>

definition detectApiExtensions :: "builder list \<Rightarrow> string list" where
  "detectApiExtensions builders =
     rev (remdups (rev (filter (\<lambda>e. e \<noteq> [])
       (map (\<lambda>b. extname (b_src b))
         (filter (\<lambda>b. c_zeroConfig (b_config b) \<and> b_src b \<noteq> [] \<and> startsWith (b_src b) ''api/'')
            builders)))))"

record routesResult =
  defaultRoutes :: "route list"
  redirectRoutes :: "route list"
  rewriteRoutes :: "route list"

definition apiNotFound :: string where
  "apiNotFound = ''^/api(/.*)?$''"

definition getRouteResult :: "route list \<Rightarrow> route list \<Rightarrow> string \<Rightarrow> builder list
    \<Rightarrow> builder option \<Rightarrow> options \<Rightarrow> routesResult" where
  "getRouteResult apiRoutes dynamicRoutes outputDirectory apiBuilders frontendBuilder opts =
     (let r0 = \<lparr>defaultRoutes = [], redirectRoutes = [], rewriteRoutes = []\<rparr>;
          r1 =
            (if length apiRoutes > 0
             then
               (if o_featHandleMiss opts
                then
                  (let extSet = detectApiExtensions apiBuilders;
                       exts = joinWith ''|'' (map (\<lambda>ext. drop 1 ext) extSet);
                       extGroup = ''(?:'' @ [backslash] @ ''.(?:'' @ exts @ ''))'';
                       r =
                         (if length extSet > 0
                          then
                            (if o_cleanUrls opts
                             then r0\<lparr>redirectRoutes := redirectRoutes r0 @
                               [emptyRoute\<lparr>r_src := Some (''^/(api(?:.+)?)/index'' @ extGroup @ ''?/?$''),
                                  r_location := Some (if o_trailingSlash opts then ''/$1/'' else ''/$1''),
                                  r_status := Some 308\<rparr>,
                                emptyRoute\<lparr>r_src := Some (''^/api/(.+)'' @ extGroup @ ''/?$''),
                                  r_location :=
                                    Some (if o_trailingSlash opts then ''/api/$1/'' else ''/api/$1''),
                                  r_status := Some 308\<rparr>]\<rparr>
                             else r0\<lparr>defaultRoutes := defaultRoutes r0 @
                               [emptyRoute\<lparr>r_handle := Some ''miss''\<rparr>,
                                emptyRoute\<lparr>r_src := Some (''^/api/(.+)'' @ extGroup @ ''$''),
                                  r_dest := Some ''/api/$1'', r_check := Some True\<rparr>]\<rparr>)
                          else r0)
                   in r\<lparr>rewriteRoutes := rewriteRoutes r @ dynamicRoutes @
                        [emptyRoute\<lparr>r_src := Some apiNotFound, r_status := Some 404,
                           r_continue := Some True\<rparr>]\<rparr>)
                else
                  (let r = r0\<lparr>defaultRoutes := defaultRoutes r0 @ apiRoutes\<rparr>
                   in if length apiRoutes \<noteq> 0
                      then r\<lparr>defaultRoutes := defaultRoutes r @
                             [emptyRoute\<lparr>r_status := Some 404, r_src := Some apiNotFound\<rparr>]\<rparr>
                      else r))
             else r0)
      in if outputDirectory \<noteq> [] \<and> frontendBuilder \<noteq> None \<and> \<not> o_featHandleMiss opts
            \<and> map_option b_use frontendBuilder = Some ''@now/static''
         then r1\<lparr>defaultRoutes := defaultRoutes r1 @
                [emptyRoute\<lparr>r_src := Some ''/(.*)'',
                   r_dest := Some (''/'' @ outputDirectory @ ''/$1'')\<rparr>]\<rparr>
         else r1)"

section \<open>Builder classifier\<close>

text \<open>The variables the loop of \<open>detectBuilders\<close> updates.\<close>

record loopState =
  ls_apiBuilders :: "builder list"
  ls_usedFunctions :: "string list"
  ls_absolutePathCache :: pathCache
  ls_hasUsedOutputDirectory :: bool
  ls_hasNoneApiFiles :: bool
  ls_hasNextApiFiles :: bool
  ls_fallbackEntrypoint :: "string option"
  ls_apiRoutes :: "route list"
  ls_dynamicRoutes :: "route list"

definition initialState :: loopState where
  "initialState = \<lparr>ls_apiBuilders = [], ls_usedFunctions = [], ls_absolutePathCache = Map.empty,
     ls_hasUsedOutputDirectory = False, ls_hasNoneApiFiles = False, ls_hasNextApiFiles = False,
     ls_fallbackEntrypoint = None, ls_apiRoutes = [], ls_dynamicRoutes = []\<rparr>"

text \<open>\<open>addToUsedFunctions\<close>: the first key of the builder's \<open>config.functions\<close>, when truthy.\<close>

definition addToUsedFunctions :: "builder \<Rightarrow> string list \<Rightarrow> string list" where
  "addToUsedFunctions b usedFunctions =
     (case c_functions (b_config b) of
        Some ((key, func) # others) \<Rightarrow>
          if key \<noteq> [] then List.insert key usedFunctions else usedFunctions
      | _ \<Rightarrow> usedFunctions)"

definition usedOutputDirectoryOf :: "options \<Rightarrow> string" where
  "usedOutputDirectoryOf opts =
     (case ps_outputDirectory (o_projectSettings opts) of
        Some d \<Rightarrow> if d \<noteq> [] then d else ''public''
      | None \<Rightarrow> ''public'')"

text \<open>The part of the loop body that runs for a file with no API builder.\<close>

definition noteOtherFile :: "options \<Rightarrow> string \<Rightarrow> loopState \<Rightarrow> loopState" where
  "noteOtherFile opts fileName st =
     (let st1 = (if \<not> ls_hasUsedOutputDirectory st
                    \<and> startsWith fileName (usedOutputDirectoryOf opts @ ''/'')
                 then st\<lparr>ls_hasUsedOutputDirectory := True\<rparr> else st);
          st2 = (if \<not> ls_hasNoneApiFiles st1 \<and> \<not> startsWith fileName ''api/''
                    \<and> fileName \<noteq> ''package.json''
                 then st1\<lparr>ls_hasNoneApiFiles := True\<rparr> else st1);
          st3 = (if \<not> ls_hasNextApiFiles st2
                    \<and> (startsWith fileName ''pages/api'' \<or> startsWith fileName ''src/pages/api'')
                 then st2\<lparr>ls_hasNextApiFiles := True\<rparr> else st2)
      in if \<not> truthy (ls_fallbackEntrypoint st3)
            \<and> truthy (ps_buildCommand (o_projectSettings opts))
            \<and> \<not> includesStr fileName ''/''
            \<and> fileName \<noteq> ''now.json''
            \<and> fileName \<noteq> ''vercel.json''
         then st3\<lparr>ls_fallbackEntrypoint := Some fileName\<rparr> else st3)"

text \<open>
  The loop over \<open>sortedFiles\<close>. \<open>Inl\<close> is the early return with a route error;
  \<open>apiSortedFiles\<close> is the list handed to \<open>getApiRoute\<close>.
\<close>

fun classifyFiles :: "env \<Rightarrow> options \<Rightarrow> string list \<Rightarrow> string list \<Rightarrow> loopState
    \<Rightarrow> errorResponse + loopState" where
  "classifyFiles E opts apiSortedFiles [] st = Inr st"
| "classifyFiles E opts apiSortedFiles (fileName # rest) st =
     (case maybeGetApiBuilder E fileName (getApiMatches opts) opts of
        Some apiBuilder \<Rightarrow>
          (let (res, cache') = getApiRoute fileName apiSortedFiles opts (ls_absolutePathCache st)
           in case ar_routeError res of
                Some routeError \<Rightarrow> Inl routeError
              | None \<Rightarrow>
                  let st1 = st\<lparr>ls_absolutePathCache := cache'\<rparr>;
                      st2 = (case ar_apiRoute res of
                               Some apiRoute \<Rightarrow>
                                 st1\<lparr>ls_apiRoutes := ls_apiRoutes st1 @ [apiRoute],
                                      ls_dynamicRoutes :=
                                        (if ar_isDynamic res then ls_dynamicRoutes st1 @ [apiRoute]
                                         else ls_dynamicRoutes st1)\<rparr>
                             | None \<Rightarrow> st1);
                      st3 = st2\<lparr>ls_usedFunctions := addToUsedFunctions apiBuilder (ls_usedFunctions st2),
                                 ls_apiBuilders := ls_apiBuilders st2 @ [apiBuilder]\<rparr>
                  in classifyFiles E opts apiSortedFiles rest st3)
      | None \<Rightarrow> classifyFiles E opts apiSortedFiles rest (noteOtherFile opts fileName st))"

record detectionResult =
  d_builders :: "builder list option"
  d_errors :: "errorResponse list option"
  d_warnings :: "errorResponse list"
  d_defaultRoutes :: "route list option"
  d_redirectRoutes :: "route list option"
  d_rewriteRoutes :: "route list option"

text \<open>The object every early return of \<open>detectBuilders\<close> builds.\<close>

definition errorResult :: "errorResponse list \<Rightarrow> errorResponse list \<Rightarrow> detectionResult" where
  "errorResult errs warnings =
     \<lparr>d_builders = None, d_errors = Some errs, d_warnings = warnings, d_defaultRoutes = None,
      d_redirectRoutes = None, d_rewriteRoutes = None\<rparr>"

definition conflictingFilesWarning :: errorResponse where
  "conflictingFilesWarning =
     \<lparr>e_code = ''conflicting_files'',
      e_message = ''It is not possible to use '' @ [backtick] @ ''api'' @ [backtick] @ '' and ''
        @ [backtick] @ ''pages/api'' @ [backtick]
        @ '' at the same time, please only use one option''\<rparr>"

text \<open>
  \<open>detectBuilders\<close> from the check of the unused functions on, with the frontend builder
  chosen. \<open>errors\<close> and \<open>warnings\<close> are the arrays of the source, both still empty here.
\<close>

definition finishDetection :: "options \<Rightarrow> loopState \<Rightarrow> builder option \<Rightarrow> detectionResult" where
  "finishDetection opts st frontendBuilder =
     (let errs = []; warnings = []
      in case checkUnusedFunctions frontendBuilder (ls_usedFunctions st) opts of
           Some unusedFunctionError \<Rightarrow> errorResult [unusedFunctionError] warnings
         | None \<Rightarrow>
             let apiBuilders = ls_apiBuilders st;
                 builders = (if length apiBuilders \<noteq> 0 then apiBuilders else [])
                   @ (case frontendBuilder of Some fb \<Rightarrow> [fb] | None \<Rightarrow> []);
                 warnings' = (if frontendBuilder \<noteq> None \<and> ls_hasNextApiFiles st
                                 \<and> length apiBuilders \<noteq> 0
                              then warnings @ [conflictingFilesWarning] else warnings);
                 routesResult = getRouteResult (ls_apiRoutes st) (ls_dynamicRoutes st)
                   (usedOutputDirectoryOf opts) apiBuilders frontendBuilder opts
             in \<lparr>d_builders = (if length builders \<noteq> 0 then Some builders else None),
                 d_errors = (if length errs \<noteq> 0 then Some errs else None),
                 d_warnings = warnings',
                 d_defaultRoutes = Some (defaultRoutes routesResult),
                 d_redirectRoutes = Some (redirectRoutes routesResult),
                 d_rewriteRoutes = Some (rewriteRoutes routesResult)\<rparr>)"

definition detectBuilders :: "env \<Rightarrow> string list \<Rightarrow> packageJson option \<Rightarrow> options
    \<Rightarrow> detectionResult" where
  "detectBuilders E files pkg opts =
     (case validateFunctions E (o_functions opts) of
        Some functionError \<Rightarrow> errorResult [functionError] []
      | None \<Rightarrow>
          let sortedFiles = filesAfterSorting E files;
              apiSortedFiles = sortedFiles;
              buildCommand = ps_buildCommand (o_projectSettings opts);
              outputDirectory = ps_outputDirectory (o_projectSettings opts);
              framework = ps_framework (o_projectSettings opts);
              makeFrontendStatic = (buildCommand = Some [] \<or> outputDirectory = Some []);
              usedOutputDirectory = usedOutputDirectoryOf opts
          in case classifyFiles E opts apiSortedFiles sortedFiles initialState of
               Inl routeError \<Rightarrow> errorResult [routeError] []
             | Inr st \<Rightarrow>
                 if \<not> makeFrontendStatic
                    \<and> (hasBuildScript pkg \<or> truthy buildCommand \<or> truthy framework)
                 then finishDetection opts st
                        (Some (detectFrontBuilder pkg sortedFiles (ls_usedFunctions st)
                                 (ls_fallbackEntrypoint st) opts))
                 else if pkg \<noteq> None \<and> \<not> makeFrontendStatic \<and> length (ls_apiBuilders st) = 0
                         \<and> \<not> o_ignoreBuildScript opts
                 then errorResult ([] @ [getMissingBuildScriptError]) []
                 else if ls_hasUsedOutputDirectory st \<and> outputDirectory \<noteq> Some []
                 then finishDetection opts st
                        (Some \<lparr>b_use = ''@now/static'', b_src = usedOutputDirectory @ ''/**/*'',
                               b_config = zeroConfig\<lparr>c_outputDirectory := Some usedOutputDirectory\<rparr>\<rparr>)
                 else if length (ls_apiBuilders st) \<noteq> 0 \<and> ls_hasNoneApiFiles st
                 then finishDetection opts st
                        (Some \<lparr>b_use = ''@now/static'', b_src = ''!{api/**,package.json}'',
                               b_config = zeroConfig\<rparr>)
                 else finishDetection opts st None)"

section \<open>Sample inputs\<close>

text \<open>The options of a call that passes none: \<open>options = {}\<close>.\<close>

definition noSettings :: projectSettings where
  "noSettings = \<lparr>ps_framework = None, ps_devCommand = None, ps_buildCommand = None,
     ps_outputDirectory = None\<rparr>"

definition defaultOptions :: options where
  "defaultOptions = \<lparr>o_tag = None, o_functions = [], o_ignoreBuildScript = False,
     o_projectSettings = noSettings, o_cleanUrls = False, o_trailingSlash = False,
     o_featHandleMiss = False\<rparr>"

text \<open>
  A sample environment for the closed examples. Its glob matching knows the globs
  \<open>api/**/*.js\<close> and \<open>api/**/*.ts\<close>, which match the files under \<open>api/\<close> with that
  extension and no hidden segment; its only valid version is \<open>1.0.0\<close>; its comparison
  orders strings by their code units, as \<open>localeCompare\<close> orders two strings whose first
  difference is between two lower-case letters.
\<close>

fun compareCodeUnits :: "string \<Rightarrow> string \<Rightarrow> int" where
  "compareCodeUnits [] [] = 0"
| "compareCodeUnits [] (y # ys) = - 1"
| "compareCodeUnits (x # xs) [] = 1"
| "compareCodeUnits (x # xs) (y # ys) =
     (if (of_char x :: nat) < of_char y then - 1
      else if (of_char y :: nat) < of_char x then 1
      else compareCodeUnits xs ys)"

definition sampleMinimatch :: "string \<Rightarrow> string \<Rightarrow> bool" where
  "sampleMinimatch file glob =
     (startsWith file ''api/'' \<and> \<not> includesStr file ''/.''
      \<and> (glob = ''api/**/*.js'' \<and> endsWith file ''.js''
         \<or> glob = ''api/**/*.ts'' \<and> endsWith file ''.ts''))"

definition sampleEnv :: env where
  "sampleEnv = \<lparr>minimatch = sampleMinimatch, validSemver = (\<lambda>tag. tag = ''1.0.0''),
     localeCompare = compareCodeUnits\<rparr>"

definition emptyFunc :: funcConfig where
  "emptyFunc = \<lparr>f_runtime = None, f_memory = None, f_maxDuration = None, f_includeFiles = None,
     f_excludeFiles = None, f_otherKeys = 0\<rparr>"

definition emptyPackage :: packageJson where
  "emptyPackage = \<lparr>pkg_dependencies = Map.empty, pkg_devDependencies = Map.empty,
     pkg_scripts = Map.empty\<rparr>"

text \<open>The codes of the errors of a result; none when \<open>errors\<close> is \<open>null\<close>.\<close>

definition errorCodes :: "detectionResult \<Rightarrow> string list" where
  "errorCodes r = (case d_errors r of Some errs \<Rightarrow> map e_code errs | None \<Rightarrow> [])"

section \<open>The order of the validation checks, as the specification words it\<close>

text \<open>
  The violations of one entry, in the order the specification lists them, each with its
  error; a value that is no non-empty object is no object at all, or an object with no
  key. A value that is no object has none of the five properties. No semantic version is
  the empty string.
\<close>

definition propertiesOf :: "funcValue \<Rightarrow> funcConfig" where
  "propertiesOf func = (case func of FuncObject f \<Rightarrow> f | NotAnObject t \<Rightarrow> emptyFunc)"

definition isNonEmptyObject :: "funcValue \<Rightarrow> bool" where
  "isNonEmptyObject func = (case func of FuncObject f \<Rightarrow> countKeys f \<noteq> 0 | NotAnObject t \<Rightarrow> False)"

definition integerBetween :: "int \<Rightarrow> int \<Rightarrow> number \<Rightarrow> bool" where
  "integerBetween lo hi m = (\<exists>k. lo \<le> k \<and> k \<le> hi \<and> m = Fin (of_int k))"

definition multipleOf64Between :: "int \<Rightarrow> int \<Rightarrow> number \<Rightarrow> bool" where
  "multipleOf64Between lo hi m = (\<exists>k. lo \<le> 64 * k \<and> 64 * k \<le> hi \<and> m = Fin (of_int (64 * k)))"

definition versionSuffix :: "string \<Rightarrow> string" where
  "versionSuffix runtime = rev (takeWhile (\<lambda>c. c \<noteq> CHR ''@'') (rev runtime))"

definition isValidVersion :: "env \<Rightarrow> string \<Rightarrow> bool" where
  "isValidVersion E tag = (tag \<noteq> [] \<and> validSemver E tag)"

definition violationsInOrder :: "env \<Rightarrow> string \<Rightarrow> funcValue \<Rightarrow> (bool \<times> errorResponse) list" where
  "violationsInOrder E glob func =
     [(length glob > 256,
       \<lparr>e_code = ''invalid_function_glob'',
        e_message = ''Function globs must be less than 256 characters long.''\<rparr>),
      (case func of NotAnObject t \<Rightarrow> True | FuncObject f \<Rightarrow> False,
       \<lparr>e_code = ''invalid_function'', e_message = ''Function must be an object.''\<rparr>),
      (\<not> isNonEmptyObject func,
       \<lparr>e_code = ''invalid_function'',
        e_message = ''Function must contain at least one property.''\<rparr>),
      (case f_maxDuration (propertiesOf func) of
         Some m \<Rightarrow> \<not> integerBetween 1 900 m | None \<Rightarrow> False,
       \<lparr>e_code = ''invalid_function_duration'',
        e_message = ''Functions must have a duration between 1 and 900.''\<rparr>),
      (case f_memory (propertiesOf func) of
         Some m \<Rightarrow> \<not> multipleOf64Between 128 3008 m | None \<Rightarrow> False,
       \<lparr>e_code = ''invalid_function_memory'',
        e_message = ''Functions must have a memory value between 128 and 3008 in steps of 64.''\<rparr>),
      (take 1 glob = ''/'',
       \<lparr>e_code = ''invalid_function_source'',
        e_message = ''The function path '' @ [dquote] @ glob @ [dquote]
          @ '' is invalid. The path must be relative to your project root and therefore cannot start with a slash.''\<rparr>),
      (case f_runtime (propertiesOf func) of
         Some r \<Rightarrow> \<not> isValidVersion E (versionSuffix r) | None \<Rightarrow> False,
       \<lparr>e_code = ''invalid_function_runtime'',
        e_message = ''Function Runtimes must have a valid version, for example ''
          @ [backtick] @ ''now-php@1.0.0'' @ [backtick] @ ''.''\<rparr>),
      (case f_includeFiles (propertiesOf func) of
         Some v \<Rightarrow> \<not> isString v | None \<Rightarrow> False,
       \<lparr>e_code = ''invalid_function_property'',
        e_message = ''The property '' @ [backtick] @ ''includeFiles'' @ [backtick]
          @ '' must be a string.''\<rparr>),
      (case f_excludeFiles (propertiesOf func) of
         Some v \<Rightarrow> \<not> isString v | None \<Rightarrow> False,
       \<lparr>e_code = ''invalid_function_property'',
        e_message = ''The property '' @ [backtick] @ ''excludeFiles'' @ [backtick]
          @ '' must be a string.''\<rparr>)]"

text \<open>The error of the first violation of an entry, and of the first entry that has one.\<close>

definition firstViolation :: "env \<Rightarrow> string \<times> funcValue \<Rightarrow> errorResponse option" where
  "firstViolation E entry =
     map_option snd (find fst (violationsInOrder E (fst entry) (snd entry)))"

definition firstViolationOfMap :: "env \<Rightarrow> builderFunctions \<Rightarrow> errorResponse option" where
  "firstViolationOfMap E fs =
     (case find (\<lambda>entry. firstViolation E entry \<noteq> None) fs of
        Some entry \<Rightarrow> firstViolation E entry
      | None \<Rightarrow> None)"

section \<open>The order in which JavaScript lists the keys of an object\<close>

text \<open>
  \<open>Object.entries\<close> and \<open>Object.keys\<close> list the keys that are array indices first, in
  ascending numeric order, and then the other keys in the order of their declaration. An
  array index is the canonical decimal numeral of a number below \<open>2^32 - 1\<close>.
  \<open>objectEntries\<close> takes the entries of an object in declaration order (with distinct
  keys) and lists them as \<open>Object.entries\<close> does.
\<close>

definition isDigit :: "char \<Rightarrow> bool" where
  "isDigit ch = (48 \<le> (of_char ch :: nat) \<and> (of_char ch :: nat) \<le> 57)"

definition decimalValue :: "string \<Rightarrow> nat" where
  "decimalValue key = foldl (\<lambda>acc ch. 10 * acc + (of_char ch - 48)) 0 key"

definition arrayIndex :: "string \<Rightarrow> nat option" where
  "arrayIndex key =
     (if key \<noteq> [] \<and> list_all isDigit key \<and> (key = ''0'' \<or> take 1 key \<noteq> ''0'')
         \<and> decimalValue key < 4294967295
      then Some (decimalValue key) else None)"

definition indexOrder :: "string \<times> 'v \<Rightarrow> nat" where
  "indexOrder entry = (case arrayIndex (fst entry) of Some n \<Rightarrow> n | None \<Rightarrow> 0)"

definition objectEntries :: "(string \<times> 'v) list \<Rightarrow> (string \<times> 'v) list" where
  "objectEntries declared =
     sort_key indexOrder (filter (\<lambda>entry. arrayIndex (fst entry) \<noteq> None) declared)
     @ filter (\<lambda>entry. arrayIndex (fst entry) = None) declared"

section \<open>The compiled route, as the specification words it\<close>

text \<open>
  The names of the placeholders of a path in order of appearance, the query binding
  \<open>name=$N\<close> of each with its 1-based capture index \<open>N\<close>, and the query string they make.
\<close>

definition placeholderNames :: "string list \<Rightarrow> string list" where
  "placeholderNames parts = List.map_filter getSegmentName parts"

fun captureBindings :: "nat \<Rightarrow> string list \<Rightarrow> string list" where
  "captureBindings N [] = []"
| "captureBindings N (name # names) = (name @ ''=$'' @ showNat N) # captureBindings (Suc N) names"

definition captureQuery :: "string \<Rightarrow> string" where
  "captureQuery filePath =
     (let names = placeholderNames (splitOn slash filePath)
      in if names = [] then [] else ''?'' @ joinWith ''&'' (captureBindings 1 names))"

text \<open>
  The pattern of each segment: a capture group for a placeholder, the alternation for a
  last segment that is none, the segment itself otherwise.
\<close>

fun compiledSegments :: "bool \<Rightarrow> bool \<Rightarrow> string list \<Rightarrow> string list" where
  "compiledSegments featHandleMiss cleanUrls [] = []"
| "compiledSegments featHandleMiss cleanUrls (segment # rest) =
     (if getSegmentName segment \<noteq> None then ''([^/]+)''
      else if rest = [] then lastSegmentPattern featHandleMiss cleanUrls segment
      else segment) # compiledSegments featHandleMiss cleanUrls rest"

text \<open>The part of a path that \<open>path.parse\<close> scans: no leading slash, no trailing slashes.\<close>

definition pathBody :: "string \<Rightarrow> string" where
  "pathBody p = dropTrailingSlashes (if hd p = slash then tl p else p)"

text \<open>
  A file path as the data model of the specification has it: relative (no leading
  slash), and the path of a file (not empty, no trailing slash).
\<close>

definition isFilePath :: "string \<Rightarrow> bool" where
  "isFilePath p = (p \<noteq> [] \<and> hd p \<noteq> slash \<and> last p \<noteq> slash)"

text \<open>A path without the extension that \<open>path.parse\<close> finds in it.\<close>

definition withoutExtension :: "string \<Rightarrow> string" where
  "withoutExtension p = take (length p - length (p_ext (parsePath p))) p"

text \<open>
  The \<open>src\<close> pattern of a path with no placeholder, between \<open>^/\<close> and \<open>$\<close>, from the
  text \<open>pre\<close> in front of the final segment, the stem \<open>f\<close> of that segment and its
  extension \<open>e\<close>; \<open>clean\<close> is the conjunction of \<open>featHandleMiss\<close> and \<open>cleanUrls\<close>.
\<close>

definition staticPattern :: "bool \<Rightarrow> string \<Rightarrow> string \<Rightarrow> string \<Rightarrow> string" where
  "staticPattern clean pre f e =
     (if f = ''index''
      then butlast pre @ ''(/|/index'' @ (if clean then [] else ''|/index'' @ escapeName e) @ '')?''
      else pre @ ''('' @ f @ ''/|'' @ escapeName f
             @ (if clean then [] else ''|'' @ escapeName f @ escapeName e) @ '')'')"

text \<open>
  A string in which no slash follows a slash, as \<open>joinPath\<close> leaves it; and the
  replacement of the first bracket group in every part of a path, the last step of
  \<open>getAbsolutePath\<close>.
\<close>

fun noAdjacentSlashes :: "string \<Rightarrow> bool" where
  "noAdjacentSlashes [] = True"
| "noAdjacentSlashes [c] = True"
| "noAdjacentSlashes (c # d # cs) = (\<not> (c = slash \<and> d = slash) \<and> noAdjacentSlashes (d # cs))"

definition replaceInParts :: "string \<Rightarrow> string" where
  "replaceInParts s = joinWith [slash] (map replaceBracket (splitOn slash s))"

section \<open>Splitting and joining\<close>

lemma splitOn_not_Nil [simp]: "splitOn c s \<noteq> []"
  by (induction s) (auto simp: Let_def)

lemma splitOn_no_sep: "c \<notin> set s \<Longrightarrow> splitOn c s = [s]"
  by (induction s) (auto simp: Let_def)

lemma splitOn_append_sep: "splitOn c (xs @ c # ys) = splitOn c xs @ splitOn c ys"
  by (induction xs) (auto simp: Let_def)

lemma last_splitOn: "last (splitOn c s) = rev (takeWhile (\<lambda>x. x \<noteq> c) (rev s))"
proof (cases "c \<in> set s")
  case False
  have tw: "takeWhile (\<lambda>x. x \<noteq> c) (rev s) = rev s"
    by (rule takeWhile_eq_all_conv [THEN iffD2]) (use False in auto)
  show ?thesis by (simp add: splitOn_no_sep [OF False] tw)
next
  case True
  then obtain xs ys where s: "s = xs @ c # ys" and ys: "c \<notin> set ys"
    by (meson split_list_last)
  have "takeWhile (\<lambda>x. x \<noteq> c) (rev ys @ c # rev xs) = rev ys"
    using ys by (simp add: takeWhile_append)
  then show ?thesis using ys by (simp add: s splitOn_append_sep splitOn_no_sep)
qed

lemma joinWith_splitOn: "joinWith [c] (splitOn c s) = s"
proof (induction s)
  case Nil show ?case by simp
next
  case (Cons x xs)
  obtain y ys where r: "splitOn c xs = y # ys" by (cases "splitOn c xs") auto
  show ?case using Cons r by (cases ys) (auto simp: Let_def)
qed

section \<open>The route compiler in closed form\<close>

lemma placeholderNames_Cons:
  "placeholderNames (s # rest) =
     (case getSegmentName s of Some n \<Rightarrow> n # placeholderNames rest | None \<Rightarrow> placeholderNames rest)"
  by (simp add: placeholderNames_def List.map_filter_simps split: option.splits)

lemma placeholderNames_Nil [simp]: "placeholderNames [] = []"
  by (simp add: placeholderNames_def List.map_filter_simps)

lemma placeholderNames_empty:
  "(placeholderNames parts = []) = (\<forall>s\<in>set parts. getSegmentName s = None)"
  by (induction parts) (auto simp: placeholderNames_Cons split: option.splits)

lemma captureBindings_empty [simp]: "(captureBindings N names = []) = (names = [])"
  by (cases names) auto

lemma mapSegments_compiled:
  "mapSegments m c parts acc =
     (compiledSegments m c parts,
      \<lparr>ra_counter = ra_counter acc + length (placeholderNames parts),
       ra_query = ra_query acc @ captureBindings (ra_counter acc) (placeholderNames parts),
       ra_isDynamic = (ra_isDynamic acc \<or> placeholderNames parts \<noteq> [])\<rparr>)"
proof (induction parts arbitrary: acc)
  case Nil
  show ?case by simp
next
  case (Cons s rest)
  show ?case
  proof (cases "getSegmentName s")
    case None
    then show ?thesis by (simp add: Cons placeholderNames_Cons)
  next
    case (Some n)
    then show ?thesis by (simp add: Cons placeholderNames_Cons)
  qed
qed

lemma createRouteFromPath_compiled:
  "createRouteFromPath p m c =
     (let cs = compiledSegments m c (splitOn slash p);
          src = (if p_name (parsePath p) = ''index''
                 then ''^/'' @ joinWith ''/'' (butlast cs) @ last cs @ ''$''
                 else ''^/'' @ joinWith ''/'' cs @ ''$'')
      in \<lparr>rr_route =
            (if m then emptyRoute\<lparr>r_src := Some src,
                        r_dest := Some (''/'' @ (if p_ext (parsePath p) \<noteq> []
                                               then take (length p - length (p_ext (parsePath p))) p
                                               else p) @ captureQuery p),
                        r_check := Some True\<rparr>
             else emptyRoute\<lparr>r_src := Some src, r_dest := Some (''/'' @ p @ captureQuery p)\<rparr>),
          rr_isDynamic = (placeholderNames (splitOn slash p) \<noteq> [])\<rparr>)"
  by (simp add: createRouteFromPath_def mapSegments_compiled Let_def captureQuery_def)

lemma compiledSegments_length [simp]: "length (compiledSegments m c parts) = length parts"
  by (induction parts) auto

lemma compiledSegments_Nil_iff [simp]: "(compiledSegments m c parts = []) = (parts = [])"
  by (cases parts) auto

lemma compiledSegments_last:
  "parts \<noteq> [] \<Longrightarrow> last (compiledSegments m c parts) =
     (if getSegmentName (last parts) \<noteq> None then ''([^/]+)''
      else lastSegmentPattern m c (last parts))"
  by (induction parts) auto

lemma compiledSegments_nth:
  "i < length parts \<Longrightarrow> getSegmentName (parts ! i) \<noteq> None
    \<Longrightarrow> compiledSegments m c parts ! i = ''([^/]+)''"
proof (induction parts arbitrary: i)
  case Nil
  then show ?case by simp
next
  case (Cons s rest)
  then show ?case by (cases i) auto
qed

section \<open>Escaping\<close>

lemma escapeChar_append: "escapeChar c (a @ b) = escapeChar c a @ escapeChar c b"
  by (simp add: escapeChar_def)

lemma escapeChar_Nil [simp]: "escapeChar c [] = []"
  by (simp add: escapeChar_def)

lemma escapeName_unfold:
  "escapeName n = escapeChar (CHR '')'') (escapeChar (CHR ''('') (escapeChar (CHR ''+'')
     (escapeChar (CHR ''*'') (escapeChar (CHR ''?'') (escapeChar (CHR ''|'') (escapeChar (CHR ''.'')
     (escapeChar (CHR ''$'') (escapeChar (CHR ''^'') (escapeChar (CHR '']'')
     (escapeChar (CHR ''['') n))))))))))"
  by (simp add: escapeName_def special_def)

lemma escapeName_append: "escapeName (a @ b) = escapeName a @ escapeName b"
  by (simp add: escapeName_unfold escapeChar_append)

lemma escapeName_Nil [simp]: "escapeName [] = []"
  by (simp add: escapeName_unfold)

lemma escapeName_single:
  "escapeName [x] = (if x \<in> set special then [backslash, x] else [x])"
  by (simp add: escapeName_unfold special_def escapeChar_def backslash_def)

text \<open>Escaping in turn is escaping every character on its own.\<close>

lemma escapeName_Cons:
  "escapeName (x # xs) = (if x \<in> set special then [backslash, x] else [x]) @ escapeName xs"
  using escapeName_append [of "[x]" xs] by (simp add: escapeName_single)

lemma escapeName_empty [simp]: "(escapeName s = []) = (s = [])"
  by (cases s) (auto simp: escapeName_Cons)

lemma escapeName_index [simp]: "escapeName ''index'' = ''index''"
  by (simp add: escapeName_Cons special_def)

section \<open>Parsed paths\<close>

lemma splitOn_no_sep_in_parts: "s \<in> set (splitOn c p) \<Longrightarrow> c \<notin> set s"
proof (induction p arbitrary: s)
  case Nil
  then show ?case by simp
next
  case (Cons x xs)
  obtain y ys where r: "splitOn c xs = y # ys" by (cases "splitOn c xs") auto
  have y: "c \<notin> set y" and ys: "\<And>t. t \<in> set ys \<Longrightarrow> c \<notin> set t"
    using Cons.IH r by auto
  show ?case using Cons.prems r y ys by (auto simp: Let_def split: if_splits)
qed

lemma splitExtension_append: "fst (splitExtension d b) @ snd (splitExtension d b) = b"
proof -
  let ?up = "rev (dropWhile (\<lambda>c. c \<noteq> dot) (rev b))"
  let ?af = "rev (takeWhile (\<lambda>c. c \<noteq> dot) (rev b))"
  have whole: "?up @ ?af = b"
    by (metis rev_append rev_rev_ident takeWhile_dropWhile_id)
  have "?up \<noteq> [] \<Longrightarrow> last ?up = dot"
    by (metis (mono_tags, lifting) Nil_is_rev_conv hd_dropWhile last_rev)
  then have "?up \<noteq> [] \<Longrightarrow> butlast ?up @ dot # ?af = b"
    using whole by (metis append.assoc append_Cons append_Nil append_butlast_last_id)
  then show ?thesis by (auto simp: splitExtension_def Let_def)
qed

lemma dropTrailingSlashes_id: "s \<noteq> [] \<Longrightarrow> last s \<noteq> slash \<Longrightarrow> dropTrailingSlashes s = s"
  by (cases s rule: rev_cases) (auto simp: dropTrailingSlashes_def)

lemma lastComponent_suffix: "\<exists>pre. s = pre @ lastComponent s"
  unfolding lastComponent_def
  by (metis rev_append rev_rev_ident takeWhile_dropWhile_id)

text \<open>The extension of a path that does not end with a slash is a suffix of the path.\<close>

lemma parsePath_ext_suffix:
  assumes "p = [] \<or> last p \<noteq> slash"
  shows "\<exists>stem. p = stem @ p_ext (parsePath p)"
proof (cases "p = []")
  case True
  then show ?thesis by (simp add: parsePath_def)
next
  case False
  with assms have lastp: "last p \<noteq> slash" by simp
  define body where "body = (if hd p = slash then tl p else p)"
  define flag where "flag = (\<not> (hd p = slash \<and> beforeLastComponent body = []))"
  have body_ne: "body \<noteq> []"
    using False lastp unfolding body_def by (cases p) (auto split: if_splits)
  have body_last: "last body \<noteq> slash"
    using False lastp body_ne unfolding body_def by (cases p) (auto split: if_splits)
  have pre: "\<exists>pre. p = pre @ body"
    using False unfolding body_def by (cases p) (auto intro: exI [of _ "[hd p]"])
  have trimmed: "dropTrailingSlashes body = body"
    using body_ne body_last by (rule dropTrailingSlashes_id)
  have ext: "p_ext (parsePath p) = snd (splitExtension flag (lastComponent body))"
    using False body_ne
    by (simp add: parsePath_def Let_def body_def [symmetric] flag_def trimmed split: prod.splits)
  obtain pre1 where p1: "p = pre1 @ body" using pre by blast
  obtain pre2 where p2: "body = pre2 @ lastComponent body" using lastComponent_suffix by blast
  have "lastComponent body = fst (splitExtension flag (lastComponent body)) @ p_ext (parsePath p)"
    by (simp add: ext splitExtension_append)
  then have "p = (pre1 @ pre2 @ fst (splitExtension flag (lastComponent body)))
      @ p_ext (parsePath p)"
    using p1 p2 by (metis append.assoc)
  then show ?thesis by blast
qed

section \<open>The fields of a parsed path\<close>

lemma dropTrailingSlashes_Nil [simp]: "dropTrailingSlashes [] = []"
  by (simp add: dropTrailingSlashes_def)

lemma lastComponent_Nil [simp]: "lastComponent [] = []"
  by (simp add: lastComponent_def)

lemma pathBody_Nil [simp]: "pathBody [] = []"
  by (simp add: pathBody_def)

lemma parsePath_Nil: "parsePath [] = \<lparr>p_root = [], p_dir = [], p_base = [], p_ext = [], p_name = []\<rparr>"
  by (simp add: parsePath_def)

lemma parsePath_base: "p_base (parsePath p) = lastComponent (pathBody p)"
  by (cases "p = []") (simp_all add: parsePath_def Let_def split_beta pathBody_def)

lemma parsePath_name:
  "p_name (parsePath p) =
     (if pathBody p = [] then []
      else fst (splitExtension (\<not> (hd p = slash \<and> beforeLastComponent (pathBody p) = []))
                  (lastComponent (pathBody p))))"
proof (cases "p = []")
  case True
  then show ?thesis by (simp add: parsePath_Nil)
next
  case False
  then show ?thesis
    by (cases "hd p = slash") (simp_all add: parsePath_def Let_def split_beta pathBody_def)
qed

lemma parsePath_ext:
  "p_ext (parsePath p) =
     (if pathBody p = [] then []
      else snd (splitExtension (\<not> (hd p = slash \<and> beforeLastComponent (pathBody p) = []))
                  (lastComponent (pathBody p))))"
proof (cases "p = []")
  case True
  then show ?thesis by (simp add: parsePath_Nil)
next
  case False
  then show ?thesis
    by (cases "hd p = slash") (simp_all add: parsePath_def Let_def split_beta pathBody_def)
qed

lemma splitExtension_name_empty: "fst (splitExtension d b) = [] \<Longrightarrow> b = []"
  by (simp add: splitExtension_def Let_def split: if_splits)

lemma lastComponent_no_slash: "slash \<notin> set (lastComponent s)"
  unfolding lastComponent_def using set_takeWhileD by fastforce

lemma parsePath_name_ext: "p_name (parsePath p) @ p_ext (parsePath p) = p_base (parsePath p)"
  by (simp add: parsePath_base parsePath_name parsePath_ext splitExtension_append)

lemma parsePath_base_no_slash: "slash \<notin> set (p_base (parsePath p))"
  by (simp add: parsePath_base lastComponent_no_slash)

lemma parsePath_name_empty:
  assumes "p_name (parsePath p) = []"
  shows "p_ext (parsePath p) = []"
proof (cases "pathBody p = []")
  case True
  then show ?thesis by (simp add: parsePath_ext)
next
  case False
  define flag where "flag = (\<not> (hd p = slash \<and> beforeLastComponent (pathBody p) = []))"
  have "fst (splitExtension flag (lastComponent (pathBody p))) = []"
    using assms False by (simp add: parsePath_name flag_def)
  then have "lastComponent (pathBody p) = []"
    by (rule splitExtension_name_empty)
  then have "p_base (parsePath p) = []" by (simp add: parsePath_base)
  then show ?thesis using parsePath_name_ext [of p] by simp
qed

lemma parsePath_ext_no_slash: "slash \<notin> set (p_ext (parsePath p))"
  using parsePath_base_no_slash [of p] parsePath_name_ext [of p]
  by (metis Un_iff set_append)

lemma parsePath_name_no_slash: "slash \<notin> set (p_name (parsePath p))"
  using parsePath_base_no_slash [of p] parsePath_name_ext [of p]
  by (metis Un_iff set_append)

lemma last_escapeName: "s \<noteq> [] \<Longrightarrow> last (escapeName s) = last s"
proof (induction s)
  case Nil
  then show ?case by simp
next
  case (Cons x xs)
  show ?case
  proof (cases "xs = []")
    case True
    then show ?thesis by (simp add: escapeName_Cons)
  next
    case False
    then have "escapeName xs \<noteq> []" by simp
    then show ?thesis using Cons.IH [OF False] False by (simp add: escapeName_Cons)
  qed
qed

section \<open>The last slash of a string, and escaping is injective\<close>

lemma lastComponent_append:
  assumes "slash \<notin> set w" and "pre = [] \<or> last pre = slash"
  shows "lastComponent (pre @ w) = w" and "beforeLastComponent (pre @ w) = pre"
proof -
  have w: "takeWhile (\<lambda>c. c \<noteq> slash) (rev w) = rev w" "dropWhile (\<lambda>c. c \<noteq> slash) (rev w) = []"
    using assms(1) by (auto simp: takeWhile_eq_all_conv)
  have pre: "takeWhile (\<lambda>c. c \<noteq> slash) (rev pre) = []" "dropWhile (\<lambda>c. c \<noteq> slash) (rev pre) = rev pre"
    using assms(2) by (cases pre rule: rev_cases; simp)+
  have "takeWhile (\<lambda>c. c \<noteq> slash) (rev w @ rev pre) = rev w"
    using assms(1) pre by (simp add: takeWhile_append)
  then show "lastComponent (pre @ w) = w" by (simp add: lastComponent_def)
  have "dropWhile (\<lambda>c. c \<noteq> slash) (rev w @ rev pre) = rev pre"
    using assms(1) pre by (simp add: dropWhile_append)
  then show "beforeLastComponent (pre @ w) = pre" by (simp add: beforeLastComponent_def)
qed

lemma components_append: "beforeLastComponent s @ lastComponent s = s"
  unfolding lastComponent_def beforeLastComponent_def
  by (metis rev_append rev_rev_ident takeWhile_dropWhile_id)

lemma beforeLastComponent_shape: "beforeLastComponent s = [] \<or> last (beforeLastComponent s) = slash"
proof (cases "dropWhile (\<lambda>c. c \<noteq> slash) (rev s)")
  case Nil
  then show ?thesis by (simp add: beforeLastComponent_def)
next
  case (Cons x xs)
  then have "x = slash" using hd_dropWhile [of "\<lambda>c. c \<noteq> slash" "rev s"] by force
  with Cons show ?thesis by (simp add: beforeLastComponent_def)
qed

lemma split_unique:
  assumes "pre @ w = pre' @ w'" and "slash \<notin> set w" and "slash \<notin> set w'"
    and "pre = [] \<or> last pre = slash" and "pre' = [] \<or> last pre' = slash"
  shows "pre = pre' \<and> w = w'"
  using lastComponent_append [OF assms(2) assms(4)] lastComponent_append [OF assms(3) assms(5)]
    assms(1) by metis

lemma escapeName_set: "set (escapeName s) \<subseteq> insert backslash (set s)"
  by (induction s) (auto simp: escapeName_Cons)

lemma escapeName_no_slash: "slash \<notin> set s \<Longrightarrow> slash \<notin> set (escapeName s)"
  using escapeName_set [of s] by (auto simp: slash_def backslash_def)

lemma hd_escapeName: "s \<noteq> [] \<Longrightarrow> hd (escapeName s) \<notin> set special"
  by (cases s) (auto simp: escapeName_Cons special_def backslash_def)

lemma escapeName_inj: "escapeName a = escapeName b \<Longrightarrow> a = b"
proof (induction a arbitrary: b)
  case Nil
  then have "escapeName b = []" by simp
  then show ?case by simp
next
  case (Cons x a)
  from Cons.prems have "b \<noteq> []" by (metis escapeName_empty list.distinct(1))
  then obtain y b' where b: "b = y # b'" by (cases b) auto
  have eq: "(if x \<in> set special then [backslash, x] else [x]) @ escapeName a
      = (if y \<in> set special then [backslash, y] else [y]) @ escapeName b'"
    using Cons.prems unfolding b escapeName_Cons .
  have bs: "backslash \<notin> set special" by (simp add: special_def backslash_def)
  consider (ss) "x \<in> set special" "y \<in> set special" | (nn) "x \<notin> set special" "y \<notin> set special"
    | (sn) "x \<in> set special" "y \<notin> set special" | (ns) "x \<notin> set special" "y \<in> set special"
    by blast
  then show ?case
  proof cases
    case ss
    with eq have "x = y" "escapeName a = escapeName b'" by auto
    with Cons.IH b show ?thesis by simp
  next
    case nn
    with eq have "x = y" "escapeName a = escapeName b'" by auto
    with Cons.IH b show ?thesis by simp
  next
    case sn
    with eq have "x # escapeName a = escapeName b'" by auto
    then have "escapeName b' \<noteq> []" "hd (escapeName b') = x"
      by (metis list.distinct(1), metis list.sel(1))
    then have "b' \<noteq> []" "hd (escapeName b') = x" by simp_all
    with hd_escapeName [of b'] sn(1) show ?thesis by simp
  next
    case ns
    with eq have "escapeName a = y # escapeName b'" by auto
    then have "escapeName a \<noteq> []" "hd (escapeName a) = y" by simp_all
    then have "a \<noteq> []" "hd (escapeName a) = y" by simp_all
    with hd_escapeName [of a] ns(2) show ?thesis by simp
  qed
qed

section \<open>File paths and their last segment\<close>

lemma joinWith_snoc: "xs \<noteq> [] \<Longrightarrow> joinWith sep (xs @ [y]) = joinWith sep xs @ sep @ y"
proof (induction xs)
  case Nil
  then show ?case by simp
next
  case (Cons x xs)
  then show ?case by (cases xs) auto
qed

lemma lastComponent_split: "last (splitOn slash p) = lastComponent p"
  by (simp add: last_splitOn lastComponent_def)

lemma butlast_splitOn:
  "joinWith [slash] (butlast (splitOn slash p) @ [x]) = beforeLastComponent p @ x"
  "joinWith [slash] (butlast (splitOn slash p)) = butlast (beforeLastComponent p)"
proof -
  have "joinWith [slash] (butlast (splitOn slash p) @ [x]) = beforeLastComponent p @ x
      \<and> joinWith [slash] (butlast (splitOn slash p)) = butlast (beforeLastComponent p)"
  proof (cases "slash \<in> set p")
    case False
    then have "beforeLastComponent ([] @ p) = []"
      by (intro lastComponent_append) auto
    with False show ?thesis by (simp add: splitOn_no_sep)
  next
    case True
    then obtain a b where p: "p = a @ slash # b" and b: "slash \<notin> set b"
      by (meson split_list_last)
    have "beforeLastComponent ((a @ [slash]) @ b) = a @ [slash]"
      using b by (intro lastComponent_append) auto
    then have before: "beforeLastComponent p = a @ [slash]" by (simp add: p)
    have parts: "butlast (splitOn slash p) = splitOn slash a"
      using b by (simp add: p splitOn_append_sep splitOn_no_sep butlast_append)
    show ?thesis
      unfolding parts before
      by (simp add: joinWith_snoc joinWith_splitOn)
  qed
  then show "joinWith [slash] (butlast (splitOn slash p) @ [x]) = beforeLastComponent p @ x"
    and "joinWith [slash] (butlast (splitOn slash p)) = butlast (beforeLastComponent p)"
    by simp_all
qed

lemma compiledSegments_static:
  "\<forall>s\<in>set parts. getSegmentName s = None \<Longrightarrow> parts \<noteq> [] \<Longrightarrow>
     compiledSegments m c parts = butlast parts @ [lastSegmentPattern m c (last parts)]"
  by (induction parts) auto

lemma isFilePath_lastComponent:
  assumes "isFilePath p"
  shows "lastComponent p \<noteq> []" and "isFilePath (lastComponent p)"
    and "lastComponent (lastComponent p) = lastComponent p"
proof -
  from assms obtain xs x where p: "p = xs @ [x]" and x: "x \<noteq> slash"
    unfolding isFilePath_def by (metis append_butlast_last_id)
  then show ne: "lastComponent p \<noteq> []" by (simp add: lastComponent_def)
  have noslash: "slash \<notin> set (lastComponent p)" by (rule lastComponent_no_slash)
  then have "hd (lastComponent p) \<noteq> slash" "last (lastComponent p) \<noteq> slash"
    using ne by (metis hd_in_set, metis last_in_set)
  with ne show "isFilePath (lastComponent p)" by (simp add: isFilePath_def)
  show "lastComponent (lastComponent p) = lastComponent p"
    using lastComponent_append(1) [OF noslash, of "[]"] by simp
qed

lemma isFilePath_pathBody: "isFilePath p \<Longrightarrow> pathBody p = p"
  by (simp add: isFilePath_def pathBody_def dropTrailingSlashes_id)

lemma isFilePath_parse:
  assumes "isFilePath p"
  shows "p_name (parsePath p) = fst (splitExtension True (lastComponent p))"
    and "p_ext (parsePath p) = snd (splitExtension True (lastComponent p))"
  using assms isFilePath_pathBody [OF assms]
  by (simp_all add: parsePath_name parsePath_ext isFilePath_def)

lemma isFilePath_parse_last:
  assumes "isFilePath p"
  shows "p_name (parsePath (lastComponent p)) = p_name (parsePath p)"
    and "p_ext (parsePath (lastComponent p)) = p_ext (parsePath p)"
  using isFilePath_parse [OF assms] isFilePath_parse [OF isFilePath_lastComponent(2) [OF assms]]
    isFilePath_lastComponent(3) [OF assms]
  by simp_all

section \<open>The pattern of a path with no placeholder\<close>

lemma slash_string: "''/'' = [slash]"
  by (simp add: slash_def)

lemma lastSegmentPattern_form:
  assumes "p_name (parsePath L) \<noteq> []"
  shows "lastSegmentPattern m c L =
     (if p_name (parsePath L) = ''index''
      then ''(/|/index'' @ (if m \<and> c then [] else ''|/index'' @ escapeName (p_ext (parsePath L))) @ '')?''
      else ''('' @ p_name (parsePath L) @ ''/|'' @ escapeName (p_name (parsePath L))
             @ (if m \<and> c then [] else ''|'' @ escapeName (p_name (parsePath L))
                  @ escapeName (p_ext (parsePath L))) @ '')'')"
  using assms by (simp add: lastSegmentPattern_def segmentAlternatives_def Let_def)

lemma static_src:
  assumes fp: "isFilePath p" and static: "\<forall>s\<in>set (splitOn slash p). getSegmentName s = None"
  shows "r_src (rr_route (createRouteFromPath p m c)) =
     Some (''^/'' @ staticPattern (m \<and> c) (beforeLastComponent p) (p_name (parsePath p))
                      (p_ext (parsePath p)) @ ''$'')"
proof -
  let ?parts = "splitOn slash p"
  let ?L = "lastComponent p"
  have cs: "compiledSegments m c ?parts = butlast ?parts @ [lastSegmentPattern m c ?L]"
    using compiledSegments_static [OF static] by (simp add: lastComponent_split)
  have name_ne: "p_name (parsePath ?L) \<noteq> []"
    using isFilePath_lastComponent(1) [OF fp] isFilePath_parse(1) [OF isFilePath_lastComponent(2) [OF fp]]
      isFilePath_lastComponent(3) [OF fp] splitExtension_name_empty by metis
  have pat: "lastSegmentPattern m c ?L =
     (if p_name (parsePath p) = ''index''
      then ''(/|/index'' @ (if m \<and> c then [] else ''|/index'' @ escapeName (p_ext (parsePath p))) @ '')?''
      else ''('' @ p_name (parsePath p) @ ''/|'' @ escapeName (p_name (parsePath p))
             @ (if m \<and> c then [] else ''|'' @ escapeName (p_name (parsePath p))
                  @ escapeName (p_ext (parsePath p))) @ '')'')"
    using lastSegmentPattern_form [OF name_ne, of m c] unfolding isFilePath_parse_last [OF fp] .
  have join1: "\<And>x. joinWith ''/'' (butlast ?parts @ [x]) = beforeLastComponent p @ x"
    unfolding slash_string by (rule butlast_splitOn(1))
  have join2: "joinWith ''/'' (butlast ?parts) = butlast (beforeLastComponent p)"
    unfolding slash_string by (rule butlast_splitOn(2))
  have "r_src (rr_route (createRouteFromPath p m c)) =
      Some (if p_name (parsePath p) = ''index''
            then ''^/'' @ butlast (beforeLastComponent p) @ lastSegmentPattern m c ?L @ ''$''
            else ''^/'' @ beforeLastComponent p @ lastSegmentPattern m c ?L @ ''$'')"
    unfolding createRouteFromPath_compiled Let_def cs
    by (simp add: emptyRoute_def join1 join2 del: joinWith.simps)
  then show ?thesis
    unfolding pat staticPattern_def by (simp split: if_splits)
qed

lemma staticPattern_clean_cong: "staticPattern True pre f e = staticPattern True pre f e'"
  by (simp add: staticPattern_def)

lemma staticPattern_inj:
  assumes pre: "pre = [] \<or> (butlast pre \<noteq> [] \<and> last pre = slash)"
      and pre': "pre' = [] \<or> (butlast pre' \<noteq> [] \<and> last pre' = slash)"
      and f: "slash \<notin> set f" and f': "slash \<notin> set f'"
      and e: "slash \<notin> set e" and e': "slash \<notin> set e'"
      and eq: "staticPattern clean pre f e = staticPattern clean pre' f' e'"
  shows "pre = pre' \<and> f = f' \<and> (clean \<or> e = e')"
proof -
  have pre_eq: "butlast pre = butlast pre' \<Longrightarrow> pre = pre'"
    using pre pre' by (metis append_butlast_last_id butlast.simps(1))
  have sh: "pre = [] \<or> last pre = slash" "pre' = [] \<or> last pre' = slash"
    using pre pre' by auto
  have ef: "slash \<notin> set (escapeName f)" "slash \<notin> set (escapeName f')"
    "slash \<notin> set (escapeName e)" "slash \<notin> set (escapeName e')"
    using f f' e e' by (simp_all add: escapeName_no_slash)
  have sl: "slash = CHR ''/''" by (simp add: slash_def)
  consider (ii) "f = ''index''" "f' = ''index''" | (nn) "f \<noteq> ''index''" "f' \<noteq> ''index''"
    | (in') "f = ''index''" "f' \<noteq> ''index''" | (ni) "f \<noteq> ''index''" "f' = ''index''"
    by blast
  then show ?thesis
  proof cases
    case ii
    show ?thesis
    proof (cases clean)
      case True
      with eq ii have "butlast pre = butlast pre'" by (simp add: staticPattern_def)
      with ii True show ?thesis using pre_eq by simp
    next
      case False
      with eq ii have "(butlast pre @ ''(/|/index|/'') @ (''index'' @ escapeName e @ '')?'')
          = (butlast pre' @ ''(/|/index|/'') @ (''index'' @ escapeName e' @ '')?'')"
        by (simp add: staticPattern_def)
      then have "butlast pre @ ''(/|/index|/'' = butlast pre' @ ''(/|/index|/''
          \<and> ''index'' @ escapeName e @ '')?'' = ''index'' @ escapeName e' @ '')?''"
        using ef by (intro split_unique) (auto simp: sl)
      then have "butlast pre = butlast pre'" "escapeName e = escapeName e'" by simp_all
      with ii show ?thesis using pre_eq escapeName_inj by simp
    qed
  next
    case nn
    have both: "pre @ ''('' @ f @ ''/'' = pre' @ ''('' @ f' @ ''/''
        \<and> (clean \<or> escapeName f @ escapeName e = escapeName f' @ escapeName e')"
    proof (cases clean)
      case True
      with eq nn have "(pre @ ''('' @ f @ ''/'') @ (''|'' @ escapeName f @ '')'')
          = (pre' @ ''('' @ f' @ ''/'') @ (''|'' @ escapeName f' @ '')'')"
        by (simp add: staticPattern_def)
      then have "pre @ ''('' @ f @ ''/'' = pre' @ ''('' @ f' @ ''/''
          \<and> ''|'' @ escapeName f @ '')'' = ''|'' @ escapeName f' @ '')''"
        using ef by (intro split_unique) (auto simp: sl)
      with True show ?thesis by simp
    next
      case False
      with eq nn have "(pre @ ''('' @ f @ ''/'')
            @ (''|'' @ escapeName f @ ''|'' @ escapeName f @ escapeName e @ '')'')
          = (pre' @ ''('' @ f' @ ''/'')
            @ (''|'' @ escapeName f' @ ''|'' @ escapeName f' @ escapeName e' @ '')'')"
        by (simp add: staticPattern_def)
      then have "pre @ ''('' @ f @ ''/'' = pre' @ ''('' @ f' @ ''/''
          \<and> ''|'' @ escapeName f @ ''|'' @ escapeName f @ escapeName e @ '')''
            = ''|'' @ escapeName f' @ ''|'' @ escapeName f' @ escapeName e' @ '')''"
        using ef by (intro split_unique) (auto simp: sl)
      then have a: "pre @ ''('' @ f @ ''/'' = pre' @ ''('' @ f' @ ''/''"
        and b: "escapeName f @ ''|'' @ escapeName f @ escapeName e
            = escapeName f' @ ''|'' @ escapeName f' @ escapeName e'" by simp_all
      from a have "pre @ (''('' @ f) = pre' @ (''('' @ f')" by simp
      then have "f = f'"
        using split_unique [of pre "''('' @ f" pre' "''('' @ f'"] f f' sh by (auto simp: sl)
      with b have "escapeName f @ escapeName e = escapeName f' @ escapeName e'" by simp
      with a show ?thesis by simp
    qed
    from both have "pre @ (''('' @ f) = pre' @ (''('' @ f')" by simp
    then have pf: "pre = pre'" "f = f'"
      using split_unique [of pre "''('' @ f" pre' "''('' @ f'"] f f' sh by (auto simp: sl)
    with both have "clean \<or> escapeName e = escapeName e'" by simp
    with pf show ?thesis using escapeName_inj by blast
  next
    case in'
    have "last (staticPattern clean pre f e) = CHR ''?''"
      using in' by (simp add: staticPattern_def)
    moreover have "last (staticPattern clean pre' f' e') = CHR '')''"
      using in' by (simp add: staticPattern_def)
    ultimately show ?thesis using eq by simp
  next
    case ni
    have "last (staticPattern clean pre' f' e') = CHR ''?''"
      using ni by (simp add: staticPattern_def)
    moreover have "last (staticPattern clean pre f e) = CHR '')''"
      using ni by (simp add: staticPattern_def)
    ultimately show ?thesis using eq by simp
  qed
qed

section \<open>Normal forms of paths\<close>

lemma collapseSlashes_Cons: "\<exists>t. collapseSlashes (d # cs) = d # t"
proof (induction cs arbitrary: d)
  case Nil
  show ?case by simp
next
  case (Cons e cs)
  show ?case using Cons [of e] by auto
qed

lemma collapseSlashes_noAdjacent: "noAdjacentSlashes (collapseSlashes s)"
proof (induction s rule: collapseSlashes.induct)
  case (3 c d cs)
  obtain t where t: "collapseSlashes (d # cs) = d # t"
    using collapseSlashes_Cons by blast
  show ?case using 3 t by auto
qed simp_all

lemma collapseSlashes_id: "noAdjacentSlashes s \<Longrightarrow> collapseSlashes s = s"
  by (induction s rule: noAdjacentSlashes.induct) auto

lemma noAdjacentSlashes_slash_free: "slash \<notin> set s \<Longrightarrow> noAdjacentSlashes s"
  by (induction s rule: noAdjacentSlashes.induct) auto

lemma collapseSlashes_append:
  "ys = [] \<or> hd ys \<noteq> slash \<Longrightarrow>
     collapseSlashes (xs @ ys) = collapseSlashes xs @ collapseSlashes ys"
proof (induction xs rule: collapseSlashes.induct)
  case 1
  show ?case by simp
next
  case (2 c)
  then show ?case by (cases ys) auto
next
  case (3 c d cs)
  then show ?case by auto
qed

lemma set_collapseSlashes: "set (collapseSlashes s) = set s"
  by (induction s rule: collapseSlashes.induct) auto

lemma afterGreedyBracket_set: "afterGreedyBracket s = Some r \<Longrightarrow> set r \<subseteq> set s"
proof -
  assume r: "afterGreedyBracket s = Some r"
  define line where "line = takeWhile (\<lambda>c. \<not> isLineTerminator c) s"
  have line: "set line \<subseteq> set s"
    unfolding line_def by (auto dest: set_takeWhileD)
  have tail: "set (takeWhile (\<lambda>c. c \<noteq> CHR '']'') (rev line)) \<subseteq> set line"
    by (auto dest: set_takeWhileD)
  have rest: "set (dropWhile (\<lambda>c. \<not> isLineTerminator c) s) \<subseteq> set s"
    by (auto dest: set_dropWhileD)
  have "r = rev (takeWhile (\<lambda>c. c \<noteq> CHR '']'') (rev line))
      @ dropWhile (\<lambda>c. \<not> isLineTerminator c) s"
    using r by (simp add: afterGreedyBracket_def Let_def line_def split: if_splits)
  then show ?thesis using line tail rest by auto
qed

lemma replaceBracket_empty [simp]: "(replaceBracket s = []) = (s = [])"
  by (cases s) (auto split: option.splits)

lemma replaceBracket_set: "set (replaceBracket s) \<subseteq> insert CHR ''1'' (set s)"
proof (induction s)
  case Nil
  show ?case by simp
next
  case (Cons c cs)
  show ?case using Cons afterGreedyBracket_set [of cs]
    by (auto split: option.splits)
qed

lemma afterGreedyBracket_one_line:
  assumes "\<forall>ch\<in>set s. \<not> isLineTerminator ch"
  shows "afterGreedyBracket s =
     (if CHR '']'' \<in> set s then Some (rev (takeWhile (\<lambda>c. c \<noteq> CHR '']'') (rev s))) else None)"
proof -
  have tw: "takeWhile (\<lambda>c. \<not> isLineTerminator c) s = s"
    using assms by (simp add: takeWhile_eq_all_conv)
  have dw: "dropWhile (\<lambda>c. \<not> isLineTerminator c) s = []"
    using assms by simp
  show ?thesis unfolding afterGreedyBracket_def Let_def tw dw by simp
qed

lemma replaceBracket_no_bracket: "CHR '']'' \<notin> set s \<Longrightarrow> replaceBracket s = s"
proof (induction s)
  case Nil
  show ?case by simp
next
  case (Cons c cs)
  have "CHR '']'' \<notin> set (takeWhile (\<lambda>c. \<not> isLineTerminator c) cs)"
    using Cons.prems by (auto dest: set_takeWhileD)
  then have "afterGreedyBracket cs = None" by (simp add: afterGreedyBracket_def Let_def)
  then show ?case using Cons by simp
qed

lemma replaceBracket_idem:
  assumes "\<forall>ch\<in>set s. \<not> isLineTerminator ch"
  shows "replaceBracket (replaceBracket s) = replaceBracket s"
  using assms
proof (induction s)
  case Nil
  show ?case by simp
next
  case (Cons c cs)
  have cs: "\<forall>ch\<in>set cs. \<not> isLineTerminator ch" using Cons.prems by simp
  show ?case
  proof (cases "c = CHR ''['' \<and> CHR '']'' \<in> set cs")
    case True
    define rest where "rest = rev (takeWhile (\<lambda>c. c \<noteq> CHR '']'') (rev cs))"
    have "CHR '']'' \<notin> set rest"
      unfolding rest_def by (auto dest: set_takeWhileD)
    then have "CHR '']'' \<notin> set (CHR ''1'' # rest)" by simp
    then have "replaceBracket (CHR ''1'' # rest) = CHR ''1'' # rest"
      by (rule replaceBracket_no_bracket)
    moreover have "replaceBracket (c # cs) = CHR ''1'' # rest"
      using True by (simp add: afterGreedyBracket_one_line [OF cs] rest_def)
    ultimately show ?thesis by simp
  next
    case False
    show ?thesis
    proof (cases "c = CHR ''[''")
      case True
      with False have "CHR '']'' \<notin> set (c # cs)" by simp
      then have "replaceBracket (c # cs) = c # cs" by (rule replaceBracket_no_bracket)
      then show ?thesis by simp
    next
      case False
      then show ?thesis using Cons.IH [OF cs] by simp
    qed
  qed
qed

lemma splitOn_joinWith:
  "parts \<noteq> [] \<Longrightarrow> \<forall>x\<in>set parts. c \<notin> set x \<Longrightarrow> splitOn c (joinWith [c] parts) = parts"
proof (induction parts)
  case Nil
  then show ?case by simp
next
  case (Cons x xs)
  show ?case
  proof (cases xs)
    case Nil
    then show ?thesis using Cons.prems by (simp add: splitOn_no_sep)
  next
    case (Cons y ys)
    then show ?thesis using Cons.IH Cons.prems
      by (simp add: splitOn_append_sep splitOn_no_sep)
  qed
qed


lemma splitOn_part_subset: "x \<in> set (splitOn c s) \<Longrightarrow> set x \<subseteq> set s"
proof (induction s arbitrary: x)
  case Nil
  then show ?case by simp
next
  case (Cons a s)
  obtain y ys where r: "splitOn c s = y # ys" by (cases "splitOn c s") auto
  have y: "set y \<subseteq> set s" and ys: "\<And>t. t \<in> set ys \<Longrightarrow> set t \<subseteq> set s"
    using Cons.IH r by auto
  show ?case using Cons.prems r y ys by (auto simp: Let_def split: if_splits)
qed

lemma splitOn_length: "c \<in> set s \<Longrightarrow> 2 \<le> length (splitOn c s)"
proof -
  assume "c \<in> set s"
  then obtain a b where s: "s = a @ c # b" by (meson split_list)
  have "0 < length (splitOn c a)" "0 < length (splitOn c b)" by simp_all
  then have "2 \<le> length (splitOn c a) + length (splitOn c b)" by linarith
  then show ?thesis unfolding s splitOn_append_sep by simp
qed

lemma replaceBracket_no_slash: "slash \<notin> set x \<Longrightarrow> slash \<notin> set (replaceBracket x)"
  using replaceBracket_set [of x] by (auto simp: slash_def)

lemma replaceInParts_parts:
  "splitOn slash (replaceInParts s) = map replaceBracket (splitOn slash s)"
  unfolding replaceInParts_def
  by (rule splitOn_joinWith) (auto dest: splitOn_no_sep_in_parts replaceBracket_no_slash)

lemma replaceInParts_idem:
  assumes "\<forall>ch\<in>set s. \<not> isLineTerminator ch"
  shows "replaceInParts (replaceInParts s) = replaceInParts s"
proof -
  have "map replaceBracket (map replaceBracket (splitOn slash s))
      = map replaceBracket (splitOn slash s)"
  proof (simp, intro ballI)
    fix x assume "x \<in> set (splitOn slash s)"
    then have "set x \<subseteq> set s" by (rule splitOn_part_subset)
    with assms have "\<forall>ch\<in>set x. \<not> isLineTerminator ch" by auto
    then show "replaceBracket (replaceBracket x) = replaceBracket x"
      by (rule replaceBracket_idem)
  qed
  then show ?thesis
    by (simp only: replaceInParts_def [of "replaceInParts s"] replaceInParts_parts)
      (simp add: replaceInParts_def)
qed

lemma replaceInParts_last: "lastComponent (replaceInParts s) = replaceBracket (lastComponent s)"
  by (simp add: lastComponent_split [symmetric] replaceInParts_parts last_map)

lemma noAdjacentSlashes_slash:
  "noAdjacentSlashes (slash # t) = ((t = [] \<or> hd t \<noteq> slash) \<and> noAdjacentSlashes t)"
  by (cases t) auto

lemma noAdjacentSlashes_prefix:
  "slash \<notin> set x \<Longrightarrow> noAdjacentSlashes (x @ slash # t) = noAdjacentSlashes (slash # t)"
proof (induction x)
  case Nil
  show ?case by simp
next
  case (Cons c x)
  then show ?case by (cases x) auto
qed

lemma joinWith_starts_with_slash:
  "slash \<notin> set y \<Longrightarrow>
     (joinWith [slash] (y # ys) = [] \<or> hd (joinWith [slash] (y # ys)) \<noteq> slash)
       = (y = [] \<longrightarrow> ys = [])"
  by (cases y; cases ys) auto

lemma noAdjacentSlashes_joinWith:
  assumes "list_all2 (\<lambda>a b. (a = []) = (b = [])) ps qs"
    and "\<forall>x\<in>set ps. slash \<notin> set x" and "\<forall>x\<in>set qs. slash \<notin> set x"
  shows "noAdjacentSlashes (joinWith [slash] ps) = noAdjacentSlashes (joinWith [slash] qs)"
  using assms
proof (induction ps qs rule: list_all2_induct)
  case Nil
  show ?case by simp
next
  case (Cons x xs y ys)
  have IH: "noAdjacentSlashes (joinWith [slash] xs) = noAdjacentSlashes (joinWith [slash] ys)"
    using Cons by simp
  show ?case
  proof (cases xs)
    case Nil
    with Cons.hyps have "ys = []" by simp
    with Nil Cons.prems show ?thesis by (simp add: noAdjacentSlashes_slash_free)
  next
    case xs: (Cons x2 xs2)
    with Cons.hyps obtain y2 ys2 where ys: "ys = y2 # ys2"
      and same: "(x2 = []) = (y2 = [])" and rest: "list_all2 (\<lambda>a b. (a = []) = (b = [])) xs2 ys2"
      by (cases ys) auto
    have len: "(xs2 = []) = (ys2 = [])"
      using list_all2_lengthD [OF rest] by auto
    have x: "slash \<notin> set x" "slash \<notin> set x2" using Cons.prems xs by auto
    have y: "slash \<notin> set y" "slash \<notin> set y2" using Cons.prems ys by auto
    have "noAdjacentSlashes (x @ slash # joinWith [slash] (x2 # xs2))
        = noAdjacentSlashes (y @ slash # joinWith [slash] (y2 # ys2))"
      unfolding noAdjacentSlashes_prefix [OF x(1)] noAdjacentSlashes_prefix [OF y(1)]
        noAdjacentSlashes_slash joinWith_starts_with_slash [OF x(2)]
        joinWith_starts_with_slash [OF y(2)]
      using IH same len by (simp add: xs ys)
    then show ?thesis by (simp add: xs ys)
  qed
qed

lemma replaceInParts_noAdjacent:
  assumes "noAdjacentSlashes s"
  shows "noAdjacentSlashes (replaceInParts s)"
proof -
  have "list_all2 (\<lambda>a b. (a = []) = (b = [])) (map replaceBracket (splitOn slash s))
      (splitOn slash s)"
    by (simp add: list_all2_map1 list_all2_same)
  then have "noAdjacentSlashes (joinWith [slash] (map replaceBracket (splitOn slash s)))
      = noAdjacentSlashes (joinWith [slash] (splitOn slash s))"
    by (rule noAdjacentSlashes_joinWith)
      (auto dest: splitOn_no_sep_in_parts replaceBracket_no_slash)
  then show ?thesis using assms by (simp add: replaceInParts_def joinWith_splitOn)
qed

lemma last_collapseSlashes: "last (collapseSlashes s) = last s"
proof (induction s rule: collapseSlashes.induct)
  case (3 c d cs)
  obtain t where t: "collapseSlashes (d # cs) = d # t"
    using collapseSlashes_Cons by blast
  show ?case using 3 t by auto
qed simp_all


lemma parsePath_dir:
  "p \<noteq> [] \<Longrightarrow> p_dir (parsePath p) =
     (if beforeLastComponent (pathBody p) \<noteq> []
      then (if hd p = slash then [slash] else []) @ butlast (beforeLastComponent (pathBody p))
      else (if hd p = slash then [slash] else []))"
  by (cases "hd p = slash") (simp_all add: parsePath_def Let_def split_beta pathBody_def)

lemma splitExtension_no_dot: "dot \<notin> set b \<Longrightarrow> splitExtension d b = (b, [])"
proof -
  assume "dot \<notin> set b"
  then have "dropWhile (\<lambda>c. c \<noteq> dot) (rev b) = []"
    by (auto simp: dropWhile_eq_Nil_conv)
  then show ?thesis by (simp add: splitExtension_def Let_def)
qed

lemma lastComponent_subset: "set (lastComponent s) \<subseteq> set s"
  unfolding lastComponent_def by (auto dest: set_takeWhileD)

lemma beforeLastComponent_subset: "set (beforeLastComponent s) \<subseteq> set s"
  unfolding beforeLastComponent_def by (auto dest: set_dropWhileD)

lemma pathBody_subset: "set (pathBody p) \<subseteq> set p"
proof -
  have "set (dropTrailingSlashes s) \<subseteq> set s" for s
    unfolding dropTrailingSlashes_def by (auto dest: set_dropWhileD)
  moreover have "set (tl p) \<subseteq> set p" by (cases p) auto
  ultimately show ?thesis unfolding pathBody_def by (cases "hd p = slash") auto
qed

lemma parsePath_name_subset: "set (p_name (parsePath p)) \<subseteq> set p"
proof -
  have "set (p_name (parsePath p)) \<subseteq> set (p_base (parsePath p))"
    using parsePath_name_ext [of p] by (metis Un_upper1 set_append)
  also have "\<dots> \<subseteq> set (pathBody p)" by (simp add: parsePath_base lastComponent_subset)
  also have "\<dots> \<subseteq> set p" by (rule pathBody_subset)
  finally show ?thesis .
qed

lemma parsePath_dir_subset: "set (p_dir (parsePath p)) \<subseteq> insert slash (set p)"
proof (cases "p = []")
  case True
  then show ?thesis by (simp add: parsePath_Nil)
next
  case False
  have "set (butlast (beforeLastComponent (pathBody p))) \<subseteq> set p"
    using beforeLastComponent_subset [of "pathBody p"] pathBody_subset [of p]
    by (meson in_set_butlastD subset_iff)
  then show ?thesis by (auto simp: parsePath_dir [OF False])
qed

lemma pathBody_shape: "pathBody p = [] \<or> last (pathBody p) \<noteq> slash"
proof -
  have "dropTrailingSlashes s = [] \<or> last (dropTrailingSlashes s) \<noteq> slash" for s
  proof (cases "dropWhile (\<lambda>c. c = slash) (rev s)")
    case Nil
    then show ?thesis by (simp add: dropTrailingSlashes_def)
  next
    case (Cons x xs)
    then have "x \<noteq> slash" using hd_dropWhile [of "\<lambda>c. c = slash" "rev s"] by force
    with Cons show ?thesis by (simp add: dropTrailingSlashes_def)
  qed
  then show ?thesis by (simp add: pathBody_def)
qed

lemma lastComponent_not_empty: "s \<noteq> [] \<Longrightarrow> last s \<noteq> slash \<Longrightarrow> lastComponent s \<noteq> []"
  by (cases s rule: rev_cases) (simp_all add: lastComponent_def)

lemma parsePath_name_Nil:
  assumes "p_name (parsePath p) = []"
  shows "pathBody p = []"
proof (rule ccontr)
  assume body: "pathBody p \<noteq> []"
  then have "fst (splitExtension (\<not> (hd p = slash \<and> beforeLastComponent (pathBody p) = []))
      (lastComponent (pathBody p))) = []"
    using assms by (simp add: parsePath_name)
  then have "lastComponent (pathBody p) = []" by (rule splitExtension_name_empty)
  moreover have "lastComponent (pathBody p) \<noteq> []"
    using body pathBody_shape [of p] by (intro lastComponent_not_empty) auto
  ultimately show False by simp
qed

text \<open>A path with an empty name: the root, the empty path.\<close>

lemma getAbsolutePath_no_name:
  assumes "p_name (parsePath p) = []"
  shows "getAbsolutePath p = [slash]"
proof -
  have body: "pathBody p = []" using assms by (rule parsePath_name_Nil)
  have "p_dir (parsePath p) = [] \<or> p_dir (parsePath p) = [slash]"
  proof (cases "p = []")
    case True
    then show ?thesis by (simp add: parsePath_Nil)
  next
    case False
    then show ?thesis by (simp add: parsePath_dir [OF False] body beforeLastComponent_def)
  qed
  moreover have "collapseSlashes [slash] = [slash]" "collapseSlashes [slash, slash] = [slash]"
    "splitOn slash [slash] = [[], []]"
    by (simp_all add: Let_def)
  ultimately show ?thesis
    unfolding getAbsolutePath_def Let_def joinPath_def assms by auto
qed

text \<open>
  A path in normal form: a directory, a slash and a name with no dot, and no two slashes
  in a row. Parsing it and joining the directory and the name gives it back.
\<close>

lemma joinPath_parsePath:
  assumes "s \<noteq> []" and "last s \<noteq> slash" and "slash \<in> set s" and "noAdjacentSlashes s"
    and "dot \<notin> set (lastComponent s)"
  shows "joinPath [p_dir (parsePath s), p_name (parsePath s)] = s"
proof -
  define B where "B = lastComponent s"
  define F where "F = beforeLastComponent s"
  have s: "s = F @ B" by (simp add: F_def B_def components_append)
  have B: "slash \<notin> set B" by (simp add: B_def lastComponent_no_slash)
  have F: "F \<noteq> []" using assms(3) B s by auto
  then have lastF: "last F = slash" using beforeLastComponent_shape [of s] by (simp add: F_def)
  have ext: "splitExtension d B = (B, [])" for d
    using assms(5) by (simp add: B_def splitExtension_no_dot)
  have collapse: "collapseSlashes s = s" using assms(4) by (rule collapseSlashes_id)
  show ?thesis
  proof (cases "hd s = slash")
    case False
    have body: "pathBody s = s"
      using False assms(1,2) by (simp add: pathBody_def dropTrailingSlashes_id)
    have name: "p_name (parsePath s) = B"
      using assms(1) by (simp add: parsePath_name body ext B_def [symmetric])
    have dir: "p_dir (parsePath s) = butlast F"
      using F False by (simp add: parsePath_dir [OF assms(1)] body F_def [symmetric])
    have "butlast F @ [slash] = F" using F lastF by (metis append_butlast_last_id)
    then have "butlast F @ slash # B = s" using s by simp
    then have "collapseSlashes (butlast F @ slash # B) = s" using collapse by simp
    then show ?thesis unfolding joinPath_def name dir by simp
  next
    case True
    then obtain s' where s': "s = slash # s'" using assms(1) by (cases s) auto
    have s'_ne: "s' \<noteq> []" using assms(2) s' by auto
    have last': "last s' \<noteq> slash" using assms(2) s' s'_ne by simp
    obtain F' where F': "F = slash # F'" using F s s' by (cases F) auto
    have rest: "s' = F' @ B" using s s' F' by simp
    have shape: "F' = [] \<or> last F' = slash" using lastF F' by (auto split: if_splits)
    have body: "pathBody s = s'"
      using s'_ne last' by (simp add: pathBody_def s' dropTrailingSlashes_id)
    have comp: "lastComponent s' = B" "beforeLastComponent s' = F'"
      unfolding rest using lastComponent_append [OF B shape] by simp_all
    have name: "p_name (parsePath s) = B"
      using s'_ne by (simp add: parsePath_name body comp ext)
    have dir: "p_dir (parsePath s) = (if F' \<noteq> [] then slash # butlast F' else [slash])"
      unfolding parsePath_dir [OF assms(1)] body comp using True by simp
    show ?thesis
    proof (cases "F' = []")
      case True
      then have "s = slash # B" using s F' by simp
      moreover have "collapseSlashes (slash # slash # B) = collapseSlashes (slash # B)" by simp
      ultimately have "collapseSlashes (slash # slash # B) = s" using collapse by simp
      then show ?thesis unfolding joinPath_def name dir using True by simp
    next
      case False
      then have "butlast F' @ [slash] = F'" using shape by (metis append_butlast_last_id)
      then have "slash # butlast F' @ slash # B = s" using s F' by simp
      then have "collapseSlashes (slash # butlast F' @ slash # B) = s" using collapse by simp
      then show ?thesis unfolding joinPath_def name dir using False by simp
    qed
  qed
qed

text \<open>What \<open>getAbsolutePath\<close> returns for a path with a name is in normal form.\<close>

lemma getAbsolutePath_replaceInParts:
  "getAbsolutePath p = replaceInParts (joinPath [p_dir (parsePath p), p_name (parsePath p)])"
  by (simp add: getAbsolutePath_def Let_def replaceInParts_def)

lemma joinPath_normal:
  assumes "p_name (parsePath p) \<noteq> []"
  defines "J \<equiv> joinPath [p_dir (parsePath p), p_name (parsePath p)]"
  shows "slash \<in> set J" and "noAdjacentSlashes J"
    and "lastComponent J = p_name (parsePath p)"
    and "set J \<subseteq> insert slash (set p)"
proof -
  define D where "D = p_dir (parsePath p)"
  define N where "N = p_name (parsePath p)"
  have N: "slash \<notin> set N" "N \<noteq> []"
    using assms(1) by (simp_all add: N_def parsePath_name_no_slash)
  then have "N = [] \<or> hd N \<noteq> slash" by (cases N) auto
  then have "collapseSlashes ((D @ [slash]) @ N) = collapseSlashes (D @ [slash]) @ collapseSlashes N"
    by (rule collapseSlashes_append)
  moreover have "collapseSlashes N = N"
    using N(1) by (intro collapseSlashes_id noAdjacentSlashes_slash_free)
  ultimately have J: "J = collapseSlashes (D @ [slash]) @ N"
    by (simp add: J_def joinPath_def D_def N_def)
  have pre: "last (collapseSlashes (D @ [slash])) = slash"
    by (simp add: last_collapseSlashes)
  show "slash \<in> set J"
    unfolding J using set_collapseSlashes [of "D @ [slash]"] by auto
  show "noAdjacentSlashes J"
    unfolding J_def joinPath_def by (rule collapseSlashes_noAdjacent)
  show "lastComponent J = p_name (parsePath p)"
    unfolding J N_def [symmetric] using N(1) pre by (intro lastComponent_append) auto
  have "set J = set D \<union> {slash} \<union> set N"
    unfolding J_def joinPath_def set_collapseSlashes by (auto simp: D_def N_def)
  then show "set J \<subseteq> insert slash (set p)"
    using parsePath_dir_subset [of p] parsePath_name_subset [of p] by (auto simp: D_def N_def)
qed

lemma getAbsolutePath_idem:
  assumes "\<forall>ch\<in>set p. \<not> isLineTerminator ch" and "dot \<notin> set (p_name (parsePath p))"
  shows "getAbsolutePath (getAbsolutePath p) = getAbsolutePath p"
proof (cases "p_name (parsePath p) = []")
  case True
  have "getAbsolutePath [slash] = [slash]" by code_simp
  then show ?thesis by (simp add: getAbsolutePath_no_name [OF True])
next
  case False
  define J where "J = joinPath [p_dir (parsePath p), p_name (parsePath p)]"
  define Q where "Q = replaceInParts J"
  note J = joinPath_normal [OF False, folded J_def]
  have Q: "getAbsolutePath p = Q" by (simp add: getAbsolutePath_replaceInParts J_def Q_def)
  have name: "lastComponent Q = replaceBracket (p_name (parsePath p))"
    by (simp add: Q_def replaceInParts_last J(3))
  have nameSet: "set (lastComponent Q) \<subseteq> insert CHR ''1'' (set (p_name (parsePath p)))"
    unfolding name by (rule replaceBracket_set)
  have ne: "lastComponent Q \<noteq> []" using False by (simp add: name)
  have 1: "Q \<noteq> []" using ne by auto
  have "last (beforeLastComponent Q @ lastComponent Q) = last (lastComponent Q)"
    using ne by (rule last_appendR)
  then have "last Q = last (lastComponent Q)" by (simp only: components_append)
  moreover have "last (lastComponent Q) \<in> set (lastComponent Q)" using ne by simp
  moreover have "slash \<notin> set (lastComponent Q)" by (rule lastComponent_no_slash)
  ultimately have 2: "last Q \<noteq> slash" by auto
  have "2 \<le> length (splitOn slash J)" using J(1) by (rule splitOn_length)
  then have "2 \<le> length (splitOn slash Q)" by (simp add: Q_def replaceInParts_parts)
  have 3: "slash \<in> set Q"
  proof (rule ccontr)
    assume "slash \<notin> set Q"
    then have "splitOn slash Q = [Q]" by (rule splitOn_no_sep)
    with \<open>2 \<le> length (splitOn slash Q)\<close> show False by simp
  qed
  have 4: "noAdjacentSlashes Q" unfolding Q_def using J(2) by (rule replaceInParts_noAdjacent)
  have 5: "dot \<notin> set (lastComponent Q)"
    using nameSet assms(2) by (auto simp: dot_def)
  have lines: "\<forall>ch\<in>set J. \<not> isLineTerminator ch"
    using J(4) assms(1) by (auto simp: isLineTerminator_def slash_def newline_def carriageReturn_def)
  have "getAbsolutePath Q = replaceInParts Q"
    by (simp add: getAbsolutePath_replaceInParts joinPath_parsePath [OF 1 2 3 4 5])
  also have "\<dots> = Q" unfolding Q_def using lines by (rule replaceInParts_idem)
  finally show ?thesis by (simp add: Q)
qed

section \<open>Legacy route assembly\<close>

text \<open>
  C5. In legacy mode (\<open>featHandleMiss\<close> false) the default routes that \<open>getRouteResult\<close>
  returns are the API routes in the order given, then the 404 route for \<open>^/api(/.*)?$\<close>
  exactly when there is an API route, then the rewrite of \<open>/(.*)\<close> into the output
  directory exactly when the frontend builder uses \<open>@now/static\<close> and the output directory
  is known (not empty); nothing else.
\<close>

theorem getRouteResult_legacy:
  assumes "\<not> o_featHandleMiss opts"
  shows "defaultRoutes (getRouteResult apiRoutes dynamicRoutes outputDirectory apiBuilders
           frontendBuilder opts) =
         apiRoutes
         @ (if apiRoutes \<noteq> []
            then [\<lparr>r_src = Some ''^/api(/.*)?$'', r_dest = None, r_check = None,
                    r_continue = None, r_status = Some 404, r_location = None, r_handle = None\<rparr>]
            else [])
         @ (if (\<exists>fb. frontendBuilder = Some fb \<and> b_use fb = ''@now/static'')
               \<and> outputDirectory \<noteq> []
            then [\<lparr>r_src = Some ''/(.*)'', r_dest = Some (''/'' @ outputDirectory @ ''/$1''),
                    r_check = None, r_continue = None, r_status = None, r_location = None,
                    r_handle = None\<rparr>]
            else [])"
proof -
  have static: "(frontendBuilder \<noteq> None \<and> map_option b_use frontendBuilder = Some ''@now/static'')
      = (\<exists>fb. frontendBuilder = Some fb \<and> b_use fb = ''@now/static'')"
    by (cases frontendBuilder) auto
  show ?thesis
    using assms static
    by (cases "apiRoutes = []")
       (auto simp: getRouteResult_def Let_def emptyRoute_def apiNotFound_def)
qed

theorem getRouteResult_legacy_witness:
  "defaultRoutes (getRouteResult [emptyRoute\<lparr>r_src := Some ''^/api/(a/|a)$''\<rparr>] [] ''public'' []
     (Some \<lparr>b_use = ''@now/static'', b_src = ''public/**/*'', b_config = zeroConfig\<rparr>)
     defaultOptions) =
   [emptyRoute\<lparr>r_src := Some ''^/api/(a/|a)$''\<rparr>,
    \<lparr>r_src = Some ''^/api(/.*)?$'', r_dest = None, r_check = None,
      r_continue = None, r_status = Some 404, r_location = None, r_handle = None\<rparr>,
    \<lparr>r_src = Some ''/(.*)'', r_dest = Some ''/public/$1'',
      r_check = None, r_continue = None, r_status = None, r_location = None,
      r_handle = None\<rparr>]"
  using getRouteResult_legacy [of defaultOptions "[emptyRoute\<lparr>r_src := Some ''^/api/(a/|a)$''\<rparr>]"
    "[]" "''public''" "[]"
    "Some \<lparr>b_use = ''@now/static'', b_src = ''public/**/*'', b_config = zeroConfig\<rparr>"]
  by (simp add: defaultOptions_def)

section \<open>Validation of the function map\<close>

lemma truncRat_of_int: "truncRat (of_int k) = k"
  by (simp add: truncRat_def)

lemma duration_check:
  "(numLess m (Fin 1) \<or> numLess (Fin 900) m \<or> \<not> isInteger m) = (\<not> integerBetween 1 900 m)"
proof (cases m)
  case (Fin x)
  show ?thesis
  proof (cases "x = of_int \<lfloor>x\<rfloor>")
    case True
    then obtain k where k: "x = of_int k" by blast
    show ?thesis unfolding Fin k by (auto simp: integerBetween_def)
  next
    case False
    then have "\<And>k. x \<noteq> of_int k" by (metis floor_of_int)
    with False show ?thesis unfolding Fin by (auto simp: integerBetween_def)
  qed
qed (auto simp: integerBetween_def)

lemma memory_check:
  "(numLess m (Fin 128) \<or> numLess (Fin 3008) m \<or> numIsNotZero (numRem m 64))
   = (\<not> multipleOf64Between 128 3008 m)"
proof (cases m)
  case (Fin x)
  show ?thesis
  proof (cases "\<exists>k. x = of_int (64 * k)")
    case True
    then obtain k where k: "x = of_int (64 * k)" by blast
    have "x / 64 = of_int k" unfolding k by simp
    then have "x - 64 * of_int (truncRat (x / 64)) = 0"
      unfolding k by (simp add: truncRat_of_int)
    then have rem: "\<not> numIsNotZero (numRem (Fin x) 64)" by simp
    have "multipleOf64Between 128 3008 (Fin x) = (128 \<le> 64 * k \<and> 64 * k \<le> 3008)"
      unfolding k multipleOf64Between_def by auto
    moreover have "(numLess (Fin x) (Fin 128) \<or> numLess (Fin 3008) (Fin x))
        = (\<not> (128 \<le> 64 * k \<and> 64 * k \<le> 3008))"
      unfolding k by (auto simp: not_le)
    ultimately show ?thesis using rem unfolding Fin by blast
  next
    case False
    have "x - 64 * of_int (truncRat (x / 64)) \<noteq> 0"
    proof
      assume "x - 64 * of_int (truncRat (x / 64)) = 0"
      then have "x = of_int (64 * truncRat (x / 64))" by simp
      with False show False by blast
    qed
    then have "numIsNotZero (numRem (Fin x) 64)" by simp
    moreover have "\<not> multipleOf64Between 128 3008 (Fin x)"
      using False by (auto simp: multipleOf64Between_def)
    ultimately show ?thesis unfolding Fin by blast
  qed
qed (auto simp: multipleOf64Between_def)

lemma startsWith_slash: "startsWith path ''/'' = (take 1 path = ''/'')"
  by (cases path) auto

lemma runtime_check:
  "(runtimeTag r = [] \<or> \<not> validSemver E (runtimeTag r)) = (\<not> isValidVersion E (versionSuffix r))"
  by (auto simp: runtimeTag_def versionSuffix_def isValidVersion_def last_splitOn)

lemma validateFunction_first:
  "validateFunction E path func = firstViolation E (path, func)"
proof (cases func)
  case (NotAnObject t)
  then show ?thesis
    by (simp add: validateFunction_def firstViolation_def violationsInOrder_def
        isNonEmptyObject_def)
next
  case (FuncObject f)
  then show ?thesis
    unfolding validateFunction_def firstViolation_def violationsInOrder_def
    by (simp add: isNonEmptyObject_def propertiesOf_def duration_check memory_check
        startsWith_slash runtime_check split: option.splits)
qed

lemma validateFunctions_first:
  "validateFunctions E fs = firstViolationOfMap E fs"
proof (induction fs)
  case Nil
  show ?case by (simp add: firstViolationOfMap_def)
next
  case (Cons entry rest)
  obtain path func where entry: "entry = (path, func)" by (cases entry)
  show ?case
  proof (cases "validateFunction E path func")
    case None
    then have "firstViolation E (path, func) = None"
      using validateFunction_first [of E path func] by simp
    with None Cons show ?thesis by (simp add: entry firstViolationOfMap_def)
  next
    case (Some err)
    then have "firstViolation E (path, func) = Some err"
      using validateFunction_first [of E path func] by simp
    with Some show ?thesis by (simp add: entry firstViolationOfMap_def)
  qed
qed

lemma objectEntries_other_keys:
  "filter (\<lambda>entry. arrayIndex (fst entry) = None) (objectEntries declared)
     = filter (\<lambda>entry. arrayIndex (fst entry) = None) declared"
proof -
  have "filter (\<lambda>entry. arrayIndex (fst entry) = None)
      (sort_key indexOrder (filter (\<lambda>entry. arrayIndex (fst entry) \<noteq> None) declared)) = []"
    by (auto simp: filter_empty_conv)
  then show ?thesis by (simp add: objectEntries_def)
qed

lemma objectEntries_no_index:
  assumes "list_all (\<lambda>entry. arrayIndex (fst entry) = None) declared"
  shows "objectEntries declared = declared"
proof -
  have "filter (\<lambda>entry. arrayIndex (fst entry) \<noteq> None) declared = []"
    using assms by (auto simp: filter_empty_conv list_all_iff)
  moreover have "filter (\<lambda>entry. arrayIndex (fst entry) = None) declared = declared"
    using assms by (auto simp: filter_id_conv list_all_iff)
  ultimately show ?thesis by (simp add: objectEntries_def)
qed

text \<open>
  C8, as stated, fails: the order is that of \<open>Object.entries\<close>, not that of the
  declaration. For the map \<open>{ 'api/a.js': { memory: 100 }, '1': { maxDuration: 0 } }\<close> the
  first violation in declaration order is the memory of \<open>api/a.js\<close>, but \<open>Object.entries\<close>
  lists the key \<open>1\<close> first and \<open>validateFunctions\<close>, and so \<open>detectBuilders\<close>, returns
  \<open>invalid_function_duration\<close>.
\<close>

theorem validateFunctions_declaration_order_counterexample:
  "map_option e_code (firstViolationOfMap sampleEnv
       [(''api/a.js'', FuncObject (emptyFunc\<lparr>f_memory := Some (Fin 100)\<rparr>)),
        (''1'', FuncObject (emptyFunc\<lparr>f_maxDuration := Some (Fin 0)\<rparr>))])
     = Some ''invalid_function_memory''
   \<and> objectEntries
       [(''api/a.js'', FuncObject (emptyFunc\<lparr>f_memory := Some (Fin 100)\<rparr>)),
        (''1'', FuncObject (emptyFunc\<lparr>f_maxDuration := Some (Fin 0)\<rparr>))]
     = [(''1'', FuncObject (emptyFunc\<lparr>f_maxDuration := Some (Fin 0)\<rparr>)),
        (''api/a.js'', FuncObject (emptyFunc\<lparr>f_memory := Some (Fin 100)\<rparr>))]
   \<and> map_option e_code (validateFunctions sampleEnv (objectEntries
       [(''api/a.js'', FuncObject (emptyFunc\<lparr>f_memory := Some (Fin 100)\<rparr>)),
        (''1'', FuncObject (emptyFunc\<lparr>f_maxDuration := Some (Fin 0)\<rparr>))]))
     = Some ''invalid_function_duration''
   \<and> errorCodes (detectBuilders sampleEnv [] None (defaultOptions\<lparr>o_functions := objectEntries
       [(''api/a.js'', FuncObject (emptyFunc\<lparr>f_memory := Some (Fin 100)\<rparr>)),
        (''1'', FuncObject (emptyFunc\<lparr>f_maxDuration := Some (Fin 0)\<rparr>))]\<rparr>))
     = [''invalid_function_duration'']"
proof -
  have order: "objectEntries
       [(''api/a.js'', FuncObject (emptyFunc\<lparr>f_memory := Some (Fin 100)\<rparr>)),
        (''1'', FuncObject (emptyFunc\<lparr>f_maxDuration := Some (Fin 0)\<rparr>))]
     = [(''1'', FuncObject (emptyFunc\<lparr>f_maxDuration := Some (Fin 0)\<rparr>)),
        (''api/a.js'', FuncObject (emptyFunc\<lparr>f_memory := Some (Fin 100)\<rparr>))]"
    by (simp add: objectEntries_def arrayIndex_def isDigit_def decimalValue_def indexOrder_def)
  have duration: "validateFunction sampleEnv ''1''
        (FuncObject (emptyFunc\<lparr>f_maxDuration := Some (Fin 0)\<rparr>))
      = Some \<lparr>e_code = ''invalid_function_duration'',
           e_message = ''Functions must have a duration between 1 and 900.''\<rparr>"
    by (simp add: validateFunction_def emptyFunc_def countKeys_def)
  have memory: "validateFunction sampleEnv ''api/a.js''
        (FuncObject (emptyFunc\<lparr>f_memory := Some (Fin 100)\<rparr>))
      = Some \<lparr>e_code = ''invalid_function_memory'',
           e_message = ''Functions must have a memory value between 128 and 3008 in steps of 64.''\<rparr>"
    by (simp add: validateFunction_def emptyFunc_def countKeys_def)
  have declared: "map_option e_code (firstViolationOfMap sampleEnv
       [(''api/a.js'', FuncObject (emptyFunc\<lparr>f_memory := Some (Fin 100)\<rparr>)),
        (''1'', FuncObject (emptyFunc\<lparr>f_maxDuration := Some (Fin 0)\<rparr>))])
     = Some ''invalid_function_memory''"
    unfolding validateFunctions_first [symmetric] by (simp add: memory)
  show ?thesis
    unfolding order
    by (simp add: declared duration errorCodes_def detectBuilders_def defaultOptions_def
        errorResult_def)
qed

text \<open>
  C8, amended. \<open>validateFunctions\<close> returns the error of the first violation: of the first
  entry that has a violation, in the order in which \<open>Object.entries\<close> lists the function
  map (the keys that are array indices first, then the other keys in declaration order; a
  map with no such key in declaration order), and of the first check of that entry that
  fails, in the order glob too long, no non-empty object, \<open>maxDuration\<close>, \<open>memory\<close>, glob
  starting with a slash, \<open>runtime\<close>, \<open>includeFiles\<close>, \<open>excludeFiles\<close>. For
  \<open>functions = { 'api/a.js': { memory: 100 } }\<close>, \<open>detectBuilders\<close> returns the
  \<open>invalid_function_memory\<close> error whatever the files, the manifest and the other
  options are: no file is classified before.
\<close>

theorem validateFunctions_first_violation:
  "validateFunctions E (objectEntries declared) = firstViolationOfMap E (objectEntries declared)
   \<and> filter (\<lambda>entry. arrayIndex (fst entry) = None) (objectEntries declared)
       = filter (\<lambda>entry. arrayIndex (fst entry) = None) declared
   \<and> (list_all (\<lambda>entry. arrayIndex (fst entry) = None) declared \<longrightarrow>
        validateFunctions E (objectEntries declared) = firstViolationOfMap E declared)
   \<and> validateFunctions E fs = firstViolationOfMap E fs
   \<and> detectBuilders E files pkg
        (opts\<lparr>o_functions := objectEntries
           [(''api/a.js'', FuncObject (emptyFunc\<lparr>f_memory := Some (Fin 100)\<rparr>))]\<rparr>)
      = \<lparr>d_builders = None,
         d_errors = Some [\<lparr>e_code = ''invalid_function_memory'',
           e_message = ''Functions must have a memory value between 128 and 3008 in steps of 64.''\<rparr>],
         d_warnings = [], d_defaultRoutes = None, d_redirectRoutes = None,
         d_rewriteRoutes = None\<rparr>"
proof (intro conjI impI)
  show "validateFunctions E (objectEntries declared)
      = firstViolationOfMap E (objectEntries declared)"
    by (rule validateFunctions_first)
next
  show "filter (\<lambda>entry. arrayIndex (fst entry) = None) (objectEntries declared)
       = filter (\<lambda>entry. arrayIndex (fst entry) = None) declared"
    by (rule objectEntries_other_keys)
next
  assume "list_all (\<lambda>entry. arrayIndex (fst entry) = None) declared"
  then show "validateFunctions E (objectEntries declared) = firstViolationOfMap E declared"
    by (simp add: objectEntries_no_index validateFunctions_first)
next
  show "validateFunctions E fs = firstViolationOfMap E fs"
    by (rule validateFunctions_first)
next
  have entries: "objectEntries
      [(''api/a.js'', FuncObject (emptyFunc\<lparr>f_memory := Some (Fin 100)\<rparr>))]
      = [(''api/a.js'', FuncObject (emptyFunc\<lparr>f_memory := Some (Fin 100)\<rparr>))]"
    by (intro objectEntries_no_index) (simp add: arrayIndex_def isDigit_def)
  have "validateFunction E ''api/a.js'' (FuncObject (emptyFunc\<lparr>f_memory := Some (Fin 100)\<rparr>))
      = Some \<lparr>e_code = ''invalid_function_memory'',
           e_message = ''Functions must have a memory value between 128 and 3008 in steps of 64.''\<rparr>"
    by (simp add: validateFunction_def emptyFunc_def countKeys_def)
  then show "detectBuilders E files pkg
        (opts\<lparr>o_functions := objectEntries
           [(''api/a.js'', FuncObject (emptyFunc\<lparr>f_memory := Some (Fin 100)\<rparr>))]\<rparr>)
      = \<lparr>d_builders = None,
         d_errors = Some [\<lparr>e_code = ''invalid_function_memory'',
           e_message = ''Functions must have a memory value between 128 and 3008 in steps of 64.''\<rparr>],
         d_warnings = [], d_defaultRoutes = None, d_redirectRoutes = None,
         d_rewriteRoutes = None\<rparr>"
    unfolding entries by (simp add: detectBuilders_def errorResult_def)
qed

theorem validateFunctions_first_violation_witness:
  "list_all (\<lambda>entry. arrayIndex (fst entry) = None)
     [(''api/b.js'', FuncObject (emptyFunc\<lparr>f_includeFiles := Some (JNonString True),
         f_excludeFiles := Some (JNonString True)\<rparr>)),
      (''api/a.js'', FuncObject (emptyFunc\<lparr>f_memory := Some (Fin 100)\<rparr>))]
   \<and> validateFunctions sampleEnv (objectEntries
     [(''api/b.js'', FuncObject (emptyFunc\<lparr>f_includeFiles := Some (JNonString True),
         f_excludeFiles := Some (JNonString True)\<rparr>)),
      (''api/a.js'', FuncObject (emptyFunc\<lparr>f_memory := Some (Fin 100)\<rparr>))])
     = Some \<lparr>e_code = ''invalid_function_property'',
         e_message = ''The property '' @ [backtick] @ ''includeFiles'' @ [backtick]
           @ '' must be a string.''\<rparr>"
proof -
  have none: "list_all (\<lambda>entry. arrayIndex (fst entry) = None)
     [(''api/b.js'', FuncObject (emptyFunc\<lparr>f_includeFiles := Some (JNonString True),
         f_excludeFiles := Some (JNonString True)\<rparr>)),
      (''api/a.js'', FuncObject (emptyFunc\<lparr>f_memory := Some (Fin 100)\<rparr>))]"
    by (simp add: arrayIndex_def isDigit_def)
  have inc: "validateFunction sampleEnv ''api/b.js''
        (FuncObject (emptyFunc\<lparr>f_includeFiles := Some (JNonString True),
           f_excludeFiles := Some (JNonString True)\<rparr>))
      = Some \<lparr>e_code = ''invalid_function_property'',
         e_message = ''The property '' @ [backtick] @ ''includeFiles'' @ [backtick]
           @ '' must be a string.''\<rparr>"
    by (simp add: validateFunction_def emptyFunc_def countKeys_def)
  have first: "firstViolationOfMap sampleEnv
     [(''api/b.js'', FuncObject (emptyFunc\<lparr>f_includeFiles := Some (JNonString True),
         f_excludeFiles := Some (JNonString True)\<rparr>)),
      (''api/a.js'', FuncObject (emptyFunc\<lparr>f_memory := Some (Fin 100)\<rparr>))]
     = Some \<lparr>e_code = ''invalid_function_property'',
         e_message = ''The property '' @ [backtick] @ ''includeFiles'' @ [backtick]
           @ '' must be a string.''\<rparr>"
    unfolding validateFunctions_first [symmetric] by (simp add: inc)
  note inst = validateFunctions_first_violation [of sampleEnv
     "[(''api/b.js'', FuncObject (emptyFunc\<lparr>f_includeFiles := Some (JNonString True),
         f_excludeFiles := Some (JNonString True)\<rparr>)),
      (''api/a.js'', FuncObject (emptyFunc\<lparr>f_memory := Some (Fin 100)\<rparr>))]"
     "[]" "[]" None defaultOptions]
  note step = inst [THEN conjunct2, THEN conjunct2, THEN conjunct1, THEN mp, OF none]
  show ?thesis
    using none step unfolding first by (rule conjI)
qed

section \<open>Errors of the detection\<close>

lemma jsSort_single: "jsSort cmp [x] = [x]"
  by (simp add: jsSort_def)

lemma filesAfterSorting_single: "filesAfterSorting E [f] = [f]"
  by (simp add: filesAfterSorting_def jsSort_single)

lemma noteOtherFile_apiBuilders: "ls_apiBuilders (noteOtherFile opts f st) = ls_apiBuilders st"
  by (simp add: noteOtherFile_def Let_def)

lemma maybeGetApiBuilder_not_api:
  "\<not> startsWith f ''api/'' \<Longrightarrow> maybeGetApiBuilder E f ms opts = None"
  by (simp add: maybeGetApiBuilder_def)

text \<open>
  C9, as stated, fails: the options \<open>{ functions: { 'api/a.js': { memory: 100 } } }\<close> have
  no \<open>ignoreBuildScript\<close>, no \<open>buildCommand\<close>, no \<open>framework\<close> and no empty-string setting,
  and for \<open>files = ['package.json']\<close> and the manifest \<open>{ scripts: {} }\<close> the error is
  \<open>invalid_function_memory\<close>: the function map is validated first.
\<close>

theorem missing_build_script_counterexample:
  "errorCodes (detectBuilders sampleEnv [''package.json''] (Some emptyPackage)
     (defaultOptions\<lparr>o_functions :=
        [(''api/a.js'', FuncObject (emptyFunc\<lparr>f_memory := Some (Fin 100)\<rparr>))]\<rparr>))
   = [''invalid_function_memory'']
   \<and> errorCodes (detectBuilders sampleEnv [''package.json''] (Some emptyPackage)
     (defaultOptions\<lparr>o_functions :=
        [(''api/a.js'', FuncObject (emptyFunc\<lparr>f_memory := Some (Fin 100)\<rparr>))]\<rparr>))
   \<noteq> [''missing_build_script'']"
  by (simp add: errorCodes_def detectBuilders_def defaultOptions_def validateFunction_def
      emptyFunc_def countKeys_def errorResult_def)

text \<open>
  C9, amended. For \<open>files = ['package.json']\<close>, a manifest whose scripts have no \<open>build\<close>
  entry, and options whose function map passes \<open>validateFunctions\<close> and that have no
  \<open>ignoreBuildScript\<close>, no \<open>buildCommand\<close>, no \<open>framework\<close> and no empty-string
  \<open>outputDirectory\<close>, \<open>detectBuilders\<close> returns the one error \<open>missing_build_script\<close>, with
  null builders and null route lists.
\<close>

theorem missing_build_script:
  assumes "validateFunctions E (o_functions opts) = None"
      and "pkg_scripts p ''build'' = None"
      and "\<not> o_ignoreBuildScript opts"
      and "ps_buildCommand (o_projectSettings opts) = None"
      and "ps_framework (o_projectSettings opts) = None"
      and "ps_outputDirectory (o_projectSettings opts) \<noteq> Some []"
  shows "detectBuilders E [''package.json''] (Some p) opts =
           \<lparr>d_builders = None, d_errors = Some [getMissingBuildScriptError], d_warnings = [],
            d_defaultRoutes = None, d_redirectRoutes = None, d_rewriteRoutes = None\<rparr>
         \<and> e_code getMissingBuildScriptError = ''missing_build_script''"
proof -
  have loop: "classifyFiles E opts [''package.json''] [''package.json''] initialState
      = Inr (noteOtherFile opts ''package.json'' initialState)"
    by (simp add: maybeGetApiBuilder_not_api)
  have none: "ls_apiBuilders (noteOtherFile opts ''package.json'' initialState) = []"
    by (simp add: noteOtherFile_apiBuilders initialState_def)
  show ?thesis
    using assms
    by (simp add: detectBuilders_def Let_def filesAfterSorting_single loop none hasBuildScript_def
        truthy_def errorResult_def getMissingBuildScriptError_def del: classifyFiles.simps)
qed

theorem missing_build_script_witness:
  "detectBuilders sampleEnv [''package.json''] (Some emptyPackage) defaultOptions =
     \<lparr>d_builders = None, d_errors = Some [getMissingBuildScriptError], d_warnings = [],
      d_defaultRoutes = None, d_redirectRoutes = None, d_rewriteRoutes = None\<rparr>
   \<and> e_code getMissingBuildScriptError = ''missing_build_script''"
  using missing_build_script [of sampleEnv defaultOptions emptyPackage]
  by (simp add: defaultOptions_def emptyPackage_def noSettings_def)

lemma finishDetection_error:
  assumes "d_errors (finishDetection opts st fb) = Some errs"
  shows "(\<exists>e. errs = [e]) \<and> d_builders (finishDetection opts st fb) = None
     \<and> d_defaultRoutes (finishDetection opts st fb) = None
     \<and> d_redirectRoutes (finishDetection opts st fb) = None
     \<and> d_rewriteRoutes (finishDetection opts st fb) = None"
proof (cases "checkUnusedFunctions fb (ls_usedFunctions st) opts")
  case None
  with assms show ?thesis by (simp add: finishDetection_def Let_def)
next
  case (Some err)
  with assms show ?thesis by (auto simp: finishDetection_def Let_def errorResult_def)
qed

lemma errorResult_error:
  assumes "d_errors (errorResult [e] w) = Some errs"
  shows "(\<exists>e. errs = [e]) \<and> d_builders (errorResult [e] w) = None
     \<and> d_defaultRoutes (errorResult [e] w) = None
     \<and> d_redirectRoutes (errorResult [e] w) = None
     \<and> d_rewriteRoutes (errorResult [e] w) = None"
  using assms by (auto simp: errorResult_def)

text \<open>Every return of \<open>detectBuilders\<close> is an early return with one error or the final one.\<close>

lemma detectBuilders_cases:
  "(\<exists>e w. detectBuilders E files pkg opts = errorResult [e] w)
   \<or> (\<exists>st fb. detectBuilders E files pkg opts = finishDetection opts st fb)"
proof (cases "validateFunctions E (o_functions opts)")
  case (Some err)
  then show ?thesis by (auto simp: detectBuilders_def)
next
  case None
  show ?thesis
  proof (cases "classifyFiles E opts (filesAfterSorting E files) (filesAfterSorting E files)
      initialState")
    case (Inl err)
    with None show ?thesis by (auto simp: detectBuilders_def Let_def)
  next
    case (Inr st)
    with None show ?thesis
      by (simp add: detectBuilders_def Let_def) blast
  qed
qed

text \<open>
  C1. Whenever the result of \<open>detectBuilders\<close> has errors (\<open>errors\<close> is not \<open>null\<close>), the
  list holds exactly one error, and \<open>builders\<close>, \<open>defaultRoutes\<close>, \<open>redirectRoutes\<close> and
  \<open>rewriteRoutes\<close> are all \<open>null\<close>; nothing is said of the warnings.
\<close>

theorem detectBuilders_error_exclusive:
  assumes "d_errors (detectBuilders E files pkg opts) = Some errs"
  shows "(\<exists>e. errs = [e]) \<and> d_builders (detectBuilders E files pkg opts) = None
     \<and> d_defaultRoutes (detectBuilders E files pkg opts) = None
     \<and> d_redirectRoutes (detectBuilders E files pkg opts) = None
     \<and> d_rewriteRoutes (detectBuilders E files pkg opts) = None"
  using detectBuilders_cases [of E files pkg opts] assms
  by (metis errorResult_error finishDetection_error)

theorem detectBuilders_error_exclusive_witness:
  "\<exists>errs. d_errors (detectBuilders sampleEnv [''api/[id].ts'', ''api/1.ts''] None defaultOptions)
       = Some errs
     \<and> map e_code errs = [''conflicting_file_path'']
     \<and> d_builders (detectBuilders sampleEnv [''api/[id].ts'', ''api/1.ts''] None defaultOptions)
       = None
     \<and> d_defaultRoutes (detectBuilders sampleEnv [''api/[id].ts'', ''api/1.ts''] None
       defaultOptions) = None
     \<and> d_redirectRoutes (detectBuilders sampleEnv [''api/[id].ts'', ''api/1.ts''] None
       defaultOptions) = None
     \<and> d_rewriteRoutes (detectBuilders sampleEnv [''api/[id].ts'', ''api/1.ts''] None
       defaultOptions) = None"
proof -
  have "map_option (map e_code)
      (d_errors (detectBuilders sampleEnv [''api/[id].ts'', ''api/1.ts''] None defaultOptions))
      = Some [''conflicting_file_path'']"
    by code_simp
  then obtain errs
    where errs: "d_errors (detectBuilders sampleEnv [''api/[id].ts'', ''api/1.ts''] None
        defaultOptions) = Some errs"
      and codes: "map e_code errs = [''conflicting_file_path'']"
    by auto
  note excl = detectBuilders_error_exclusive [OF errs]
  show ?thesis
    by (rule exI [of _ errs]) (use errs codes excl in simp)
qed

section \<open>Destination and dynamic flag of a compiled route\<close>

text \<open>
  C6. For every file path (a path that does not end with a slash), with \<open>featHandleMiss\<close>
  true the destination is \<open>/\<close>, the path with its extension stripped, and the query string
  of the captures, and the route has \<open>check: true\<close>; with \<open>featHandleMiss\<close> false the
  destination is \<open>/\<close>, the path itself and the query string, and the route has no
  \<open>check\<close>; in both modes \<open>isDynamic\<close> is true exactly when some segment is a placeholder,
  which the callback has replaced by the capture group \<open>([^/]+)\<close>.
\<close>

theorem createRouteFromPath_dest:
  assumes "p = [] \<or> last p \<noteq> slash"
  shows "\<exists>stem. p = stem @ p_ext (parsePath p)
     \<and> r_dest (rr_route (createRouteFromPath p True c)) = Some (''/'' @ stem @ captureQuery p)
     \<and> r_check (rr_route (createRouteFromPath p True c)) = Some True
     \<and> r_dest (rr_route (createRouteFromPath p False c)) = Some (''/'' @ p @ captureQuery p)
     \<and> r_check (rr_route (createRouteFromPath p False c)) = None
     \<and> (rr_isDynamic (createRouteFromPath p m c) =
          (\<exists>i < length (splitOn slash p). getSegmentName (splitOn slash p ! i) \<noteq> None
             \<and> fst (mapSegments m c (splitOn slash p)
                   \<lparr>ra_counter = 1, ra_query = [], ra_isDynamic = False\<rparr>) ! i = ''([^/]+)''))"
proof -
  obtain stem where stem: "p = stem @ p_ext (parsePath p)"
    using parsePath_ext_suffix [OF assms] by blast
  have len: "length p - length (p_ext (parsePath p)) = length stem"
    using arg_cong [OF stem, of length] by simp
  have "take (length stem) p = stem"
    by (metis stem append_eq_conv_conj)
  then have "take (length p - length (p_ext (parsePath p))) p = stem"
    by (simp only: len)
  moreover have "p_ext (parsePath p) = [] \<Longrightarrow> p = stem"
    using stem by simp
  ultimately have strip: "(if p_ext (parsePath p) \<noteq> []
      then take (length p - length (p_ext (parsePath p))) p else p) = stem"
    by simp
  have dyn: "(placeholderNames (splitOn slash p) \<noteq> []) =
      (\<exists>i < length (splitOn slash p). getSegmentName (splitOn slash p ! i) \<noteq> None
         \<and> compiledSegments m c (splitOn slash p) ! i = ''([^/]+)'')"
  proof
    assume "placeholderNames (splitOn slash p) \<noteq> []"
    then obtain s where "s \<in> set (splitOn slash p)" and s: "getSegmentName s \<noteq> None"
      by (auto simp: placeholderNames_empty)
    then obtain i where i: "i < length (splitOn slash p)" and "splitOn slash p ! i = s"
      by (auto simp: in_set_conv_nth)
    with s have "getSegmentName (splitOn slash p ! i) \<noteq> None" by simp
    with i show "\<exists>i < length (splitOn slash p). getSegmentName (splitOn slash p ! i) \<noteq> None
         \<and> compiledSegments m c (splitOn slash p) ! i = ''([^/]+)''"
      using compiledSegments_nth by blast
  next
    assume "\<exists>i < length (splitOn slash p). getSegmentName (splitOn slash p ! i) \<noteq> None
         \<and> compiledSegments m c (splitOn slash p) ! i = ''([^/]+)''"
    then obtain i where "i < length (splitOn slash p)"
      and "getSegmentName (splitOn slash p ! i) \<noteq> None" by blast
    then have "\<exists>s\<in>set (splitOn slash p). getSegmentName s \<noteq> None"
      using nth_mem by blast
    then show "placeholderNames (splitOn slash p) \<noteq> []"
      by (simp add: placeholderNames_empty)
  qed
  have "r_dest (rr_route (createRouteFromPath p True c)) = Some (''/'' @ stem @ captureQuery p)"
    unfolding createRouteFromPath_compiled Let_def strip by (simp add: emptyRoute_def)
  moreover have "r_check (rr_route (createRouteFromPath p True c)) = Some True"
    unfolding createRouteFromPath_compiled Let_def by (simp add: emptyRoute_def)
  moreover have "r_dest (rr_route (createRouteFromPath p False c)) = Some (''/'' @ p @ captureQuery p)"
    unfolding createRouteFromPath_compiled Let_def by (simp add: emptyRoute_def)
  moreover have "r_check (rr_route (createRouteFromPath p False c)) = None"
    unfolding createRouteFromPath_compiled Let_def by (simp add: emptyRoute_def)
  moreover have "rr_isDynamic (createRouteFromPath p m c) =
      (\<exists>i < length (splitOn slash p). getSegmentName (splitOn slash p ! i) \<noteq> None
         \<and> fst (mapSegments m c (splitOn slash p)
               \<lparr>ra_counter = 1, ra_query = [], ra_isDynamic = False\<rparr>) ! i = ''([^/]+)'')"
    unfolding createRouteFromPath_compiled Let_def mapSegments_compiled using dyn by simp
  ultimately show ?thesis using stem by blast
qed

theorem createRouteFromPath_dest_witness:
  "last ''api/[id]/index.ts'' \<noteq> slash
   \<and> ''api/[id]/index.ts'' = ''api/[id]/index'' @ p_ext (parsePath ''api/[id]/index.ts'')
   \<and> r_dest (rr_route (createRouteFromPath ''api/[id]/index.ts'' True False))
       = Some ''/api/[id]/index?id=$1''
   \<and> r_check (rr_route (createRouteFromPath ''api/[id]/index.ts'' True False)) = Some True
   \<and> r_dest (rr_route (createRouteFromPath ''api/[id]/index.ts'' False False))
       = Some ''/api/[id]/index.ts?id=$1''
   \<and> r_check (rr_route (createRouteFromPath ''api/[id]/index.ts'' False False)) = None
   \<and> rr_isDynamic (createRouteFromPath ''api/[id]/index.ts'' True False)"
proof -
  have hyp: "''api/[id]/index.ts'' = [] \<or> last ''api/[id]/index.ts'' \<noteq> slash"
    by (simp add: slash_def)
  have ext: "p_ext (parsePath ''api/[id]/index.ts'') = ''.ts''"
    by code_simp
  have query: "captureQuery ''api/[id]/index.ts'' = ''?id=$1''"
    by code_simp
  have capture: "1 < length (splitOn slash ''api/[id]/index.ts'')
      \<and> getSegmentName (splitOn slash ''api/[id]/index.ts'' ! 1) \<noteq> None
      \<and> fst (mapSegments True False (splitOn slash ''api/[id]/index.ts'')
            \<lparr>ra_counter = 1, ra_query = [], ra_isDynamic = False\<rparr>) ! 1 = ''([^/]+)''"
    by code_simp
  from createRouteFromPath_dest [OF hyp, of False True] obtain stem
    where stem: "''api/[id]/index.ts'' = stem @ p_ext (parsePath ''api/[id]/index.ts'')"
      and rest: "r_dest (rr_route (createRouteFromPath ''api/[id]/index.ts'' True False))
          = Some (''/'' @ stem @ captureQuery ''api/[id]/index.ts'')"
        "r_check (rr_route (createRouteFromPath ''api/[id]/index.ts'' True False)) = Some True"
        "r_dest (rr_route (createRouteFromPath ''api/[id]/index.ts'' False False))
          = Some (''/'' @ ''api/[id]/index.ts'' @ captureQuery ''api/[id]/index.ts'')"
        "r_check (rr_route (createRouteFromPath ''api/[id]/index.ts'' False False)) = None"
        "rr_isDynamic (createRouteFromPath ''api/[id]/index.ts'' True False) =
          (\<exists>i < length (splitOn slash ''api/[id]/index.ts'').
             getSegmentName (splitOn slash ''api/[id]/index.ts'' ! i) \<noteq> None
             \<and> fst (mapSegments True False (splitOn slash ''api/[id]/index.ts'')
                   \<lparr>ra_counter = 1, ra_query = [], ra_isDynamic = False\<rparr>) ! i = ''([^/]+)'')"
    by blast
  have "''api/[id]/index'' @ ''.ts'' = stem @ ''.ts''"
    using stem unfolding ext by simp
  then have stem_eq: "stem = ''api/[id]/index''"
    by (simp only: append_same_eq)
  have dyn: "rr_isDynamic (createRouteFromPath ''api/[id]/index.ts'' True False)"
    unfolding rest(5) using capture by blast
  show ?thesis
    using hyp rest(1-4) dyn unfolding query stem_eq ext by simp
qed

section \<open>Clean URLs\<close>

lemma segmentAlternatives_clean:
  "segmentAlternatives True True segment =
     (if p_name (parsePath segment) = ''index'' then [''/'', ''/index'']
      else if p_name (parsePath segment) = [] then [''/'']
      else [p_name (parsePath segment) @ ''/'', escapeName (p_name (parsePath segment))])"
  by (simp add: segmentAlternatives_def Let_def)

lemma extension_alternative_absent:
  assumes "p_ext (parsePath segment) \<noteq> []"
  shows "(if p_name (parsePath segment) = ''index'' then ''/'' else [])
           @ escapeName (p_name (parsePath segment)) @ escapeName (p_ext (parsePath segment))
         \<notin> set (segmentAlternatives True True segment)"
proof -
  let ?n = "p_name (parsePath segment)" and ?e = "p_ext (parsePath segment)"
  have ne: "escapeName ?e \<noteq> []" using assms by simp
  have "last (escapeName ?e) = last ?e" using assms by (rule last_escapeName)
  moreover have "last ?e \<in> set ?e" using assms by simp
  ultimately have "last (escapeName ?e) \<noteq> slash"
    using parsePath_ext_no_slash [of segment] by metis
  then have noslash: "last (escapeName ?n @ escapeName ?e) \<noteq> CHR ''/''"
    using ne by (simp add: slash_def)
  have n_ne: "?n \<noteq> []" using assms parsePath_name_empty by blast
  show ?thesis
  proof (cases "?n = ''index''")
    case True
    then show ?thesis using ne by (simp add: segmentAlternatives_clean)
  next
    case False
    have "escapeName ?n @ escapeName ?e \<noteq> ?n @ ''/''"
      using noslash by (metis last_snoc append.assoc append_Cons append_Nil)
    then show ?thesis using False n_ne ne by (simp add: segmentAlternatives_clean)
  qed
qed

text \<open>
  C7. With \<open>cleanUrls\<close> and \<open>featHandleMiss\<close> both true, the alternatives of a final segment
  that is no placeholder are the stem with a trailing slash and the escaped stem (the
  latter only when it is not empty), or \<open>/\<close> and \<open>/index\<close> for an index file; the
  alternative that bears the extension is not among them. The \<open>src\<close> of the route is
  built from the patterns of the segments, and the pattern of the final segment is the
  capture group of a placeholder or the group of exactly these alternatives.
\<close>

theorem cleanUrls_omits_extension:
  "segmentAlternatives True True segment =
     (if p_name (parsePath segment) = ''index'' then [''/'', ''/index'']
      else if p_name (parsePath segment) = [] then [''/'']
      else [p_name (parsePath segment) @ ''/'', escapeName (p_name (parsePath segment))])
   \<and> (p_ext (parsePath segment) \<noteq> [] \<longrightarrow>
        (if p_name (parsePath segment) = ''index'' then ''/'' else [])
          @ escapeName (p_name (parsePath segment)) @ escapeName (p_ext (parsePath segment))
        \<notin> set (segmentAlternatives True True segment))
   \<and> r_src (rr_route (createRouteFromPath p True True)) =
        Some (if p_name (parsePath p) = ''index''
              then ''^/''
                @ joinWith ''/'' (butlast (fst (mapSegments True True (splitOn slash p)
                    \<lparr>ra_counter = 1, ra_query = [], ra_isDynamic = False\<rparr>)))
                @ last (fst (mapSegments True True (splitOn slash p)
                    \<lparr>ra_counter = 1, ra_query = [], ra_isDynamic = False\<rparr>)) @ ''$''
              else ''^/''
                @ joinWith ''/'' (fst (mapSegments True True (splitOn slash p)
                    \<lparr>ra_counter = 1, ra_query = [], ra_isDynamic = False\<rparr>)) @ ''$'')
   \<and> last (fst (mapSegments True True (splitOn slash p)
          \<lparr>ra_counter = 1, ra_query = [], ra_isDynamic = False\<rparr>)) =
        (if getSegmentName (last (splitOn slash p)) \<noteq> None then ''([^/]+)''
         else ''('' @ joinWith ''|'' (segmentAlternatives True True (last (splitOn slash p))) @ '')''
           @ (if p_name (parsePath (last (splitOn slash p))) = ''index'' then ''?'' else []))"
proof (intro conjI)
  show "segmentAlternatives True True segment =
     (if p_name (parsePath segment) = ''index'' then [''/'', ''/index'']
      else if p_name (parsePath segment) = [] then [''/'']
      else [p_name (parsePath segment) @ ''/'', escapeName (p_name (parsePath segment))])"
    by (rule segmentAlternatives_clean)
next
  show "p_ext (parsePath segment) \<noteq> [] \<longrightarrow>
        (if p_name (parsePath segment) = ''index'' then ''/'' else [])
          @ escapeName (p_name (parsePath segment)) @ escapeName (p_ext (parsePath segment))
        \<notin> set (segmentAlternatives True True segment)"
    using extension_alternative_absent by blast
next
  show "r_src (rr_route (createRouteFromPath p True True)) =
        Some (if p_name (parsePath p) = ''index''
              then ''^/''
                @ joinWith ''/'' (butlast (fst (mapSegments True True (splitOn slash p)
                    \<lparr>ra_counter = 1, ra_query = [], ra_isDynamic = False\<rparr>)))
                @ last (fst (mapSegments True True (splitOn slash p)
                    \<lparr>ra_counter = 1, ra_query = [], ra_isDynamic = False\<rparr>)) @ ''$''
              else ''^/''
                @ joinWith ''/'' (fst (mapSegments True True (splitOn slash p)
                    \<lparr>ra_counter = 1, ra_query = [], ra_isDynamic = False\<rparr>)) @ ''$'')"
    unfolding createRouteFromPath_compiled mapSegments_compiled Let_def
    by (simp add: emptyRoute_def)
next
  show "last (fst (mapSegments True True (splitOn slash p)
          \<lparr>ra_counter = 1, ra_query = [], ra_isDynamic = False\<rparr>)) =
        (if getSegmentName (last (splitOn slash p)) \<noteq> None then ''([^/]+)''
         else ''('' @ joinWith ''|'' (segmentAlternatives True True (last (splitOn slash p))) @ '')''
           @ (if p_name (parsePath (last (splitOn slash p))) = ''index'' then ''?'' else []))"
    unfolding mapSegments_compiled
    by (simp add: compiledSegments_last lastSegmentPattern_def Let_def)
qed

theorem cleanUrls_omits_extension_witness:
  "p_ext (parsePath ''hello.js'') \<noteq> []
   \<and> segmentAlternatives True True ''hello.js'' = [''hello/'', ''hello'']
   \<and> ''hello'' @ [backslash] @ ''.js'' \<notin> set (segmentAlternatives True True ''hello.js'')
   \<and> r_src (rr_route (createRouteFromPath ''api/hello.js'' True True)) = Some ''^/api/(hello/|hello)$''"
proof -
  have ext: "p_ext (parsePath ''hello.js'') = ''.js''" by code_simp
  have name: "p_name (parsePath ''hello.js'') = ''hello''" by code_simp
  have esc: "escapeName ''hello'' = ''hello''" "escapeName ''.js'' = [backslash] @ ''.js''"
    by code_simp+
  have parts: "fst (mapSegments True True (splitOn slash ''api/hello.js'')
      \<lparr>ra_counter = 1, ra_query = [], ra_isDynamic = False\<rparr>) = [''api'', ''(hello/|hello)'']"
    by code_simp
  have noindex: "p_name (parsePath ''api/hello.js'') \<noteq> ''index''" by code_simp
  note inst = cleanUrls_omits_extension [of "''hello.js''" "''api/hello.js''"]
  show ?thesis
    using inst unfolding ext name esc parts by (simp add: noindex)
qed

section \<open>The empty placeholder name\<close>









section \<open>The order in which the loop visits the files\<close>


section \<open>Injectivity of route compilation on paths with no placeholder\<close>

text \<open>The three components of a file path: it is their concatenation, and each has its shape.\<close>

lemma filePath_components:
  assumes fp: "isFilePath p"
  shows "p = beforeLastComponent p @ p_name (parsePath p) @ p_ext (parsePath p)"
    and "beforeLastComponent p = []
         \<or> (butlast (beforeLastComponent p) \<noteq> [] \<and> last (beforeLastComponent p) = slash)"
    and "slash \<notin> set (p_name (parsePath p))" and "slash \<notin> set (p_ext (parsePath p))"
    and "withoutExtension p = beforeLastComponent p @ p_name (parsePath p)"
proof -
  have base: "p_name (parsePath p) @ p_ext (parsePath p) = lastComponent p"
    by (simp add: isFilePath_parse [OF fp] splitExtension_append)
  show whole: "p = beforeLastComponent p @ p_name (parsePath p) @ p_ext (parsePath p)"
    unfolding base by (simp add: components_append)
  show "beforeLastComponent p = []
      \<or> (butlast (beforeLastComponent p) \<noteq> [] \<and> last (beforeLastComponent p) = slash)"
  proof (cases "beforeLastComponent p = []")
    case True
    then show ?thesis by simp
  next
    case False
    then have lst: "last (beforeLastComponent p) = slash"
      using beforeLastComponent_shape by blast
    have "butlast (beforeLastComponent p) \<noteq> []"
    proof
      assume "butlast (beforeLastComponent p) = []"
      then have "beforeLastComponent p = [slash]"
        using False lst by (metis append_butlast_last_id append_Nil)
      then have "hd p = slash"
        using components_append [of p] by (metis append_Cons list.sel(1))
      with fp show False by (simp add: isFilePath_def)
    qed
    with lst show ?thesis by simp
  qed
  show "slash \<notin> set (p_name (parsePath p))" by (rule parsePath_name_no_slash)
  show "slash \<notin> set (p_ext (parsePath p))" by (rule parsePath_ext_no_slash)
  have "length p - length (p_ext (parsePath p))
      = length (beforeLastComponent p @ p_name (parsePath p))"
    using arg_cong [OF whole, of length] by simp
  moreover have "take (length (beforeLastComponent p @ p_name (parsePath p))) p
      = beforeLastComponent p @ p_name (parsePath p)"
    by (metis whole append.assoc append_eq_conv_conj)
  ultimately show "withoutExtension p = beforeLastComponent p @ p_name (parsePath p)"
    by (simp only: withoutExtension_def)
qed

text \<open>
  C4, as stated, fails: with \<open>featHandleMiss\<close> and \<open>cleanUrls\<close> both true the pattern has
  no alternative with the extension, and the two paths \<open>api/a.js\<close> and \<open>api/a.ts\<close>, which
  have no placeholder, get the same \<open>src\<close>.
\<close>

theorem createRouteFromPath_injective_counterexample:
  "''api/a.js'' \<noteq> ''api/a.ts''
   \<and> placeholderNames (splitOn slash ''api/a.js'') = []
   \<and> placeholderNames (splitOn slash ''api/a.ts'') = []
   \<and> r_src (rr_route (createRouteFromPath ''api/a.js'' True True)) = Some ''^/api/(a/|a)$''
   \<and> r_src (rr_route (createRouteFromPath ''api/a.ts'' True True)) = Some ''^/api/(a/|a)$''"
  by code_simp

text \<open>
  C4, amended. For two file paths with no placeholder segment: unless \<open>featHandleMiss\<close> and
  \<open>cleanUrls\<close> are both true, \<open>createRouteFromPath\<close> gives them the same \<open>src\<close> only when
  they are the same path; when both flags are true, it gives them the same \<open>src\<close> exactly
  when they are the same path up to the extension of the final segment.
\<close>

theorem createRouteFromPath_injective:
  assumes "isFilePath p" and "isFilePath p'"
      and "\<forall>s\<in>set (splitOn slash p). getSegmentName s = None"
      and "\<forall>s\<in>set (splitOn slash p'). getSegmentName s = None"
  shows "(\<not> (m \<and> c) \<longrightarrow>
            (r_src (rr_route (createRouteFromPath p m c))
               = r_src (rr_route (createRouteFromPath p' m c))) = (p = p'))
         \<and> ((r_src (rr_route (createRouteFromPath p True True))
               = r_src (rr_route (createRouteFromPath p' True True)))
              = (withoutExtension p = withoutExtension p'))"
proof -
  let ?pre = "beforeLastComponent p" and ?f = "p_name (parsePath p)" and ?e = "p_ext (parsePath p)"
  let ?pre' = "beforeLastComponent p'" and ?f' = "p_name (parsePath p')"
    and ?e' = "p_ext (parsePath p')"
  note comp = filePath_components [OF assms(1)]
  note comp' = filePath_components [OF assms(2)]
  have src: "\<And>m c. (r_src (rr_route (createRouteFromPath p m c))
        = r_src (rr_route (createRouteFromPath p' m c)))
      = (staticPattern (m \<and> c) ?pre ?f ?e = staticPattern (m \<and> c) ?pre' ?f' ?e')"
    by (simp add: static_src [OF assms(1) assms(3)] static_src [OF assms(2) assms(4)])
  have inj: "\<And>clean. staticPattern clean ?pre ?f ?e = staticPattern clean ?pre' ?f' ?e'
      \<Longrightarrow> ?pre = ?pre' \<and> ?f = ?f' \<and> (clean \<or> ?e = ?e')"
    using staticPattern_inj [OF comp(2) comp'(2) comp(3) comp'(3) comp(4) comp'(4)] by blast
  have first: "(staticPattern False ?pre ?f ?e = staticPattern False ?pre' ?f' ?e') = (p = p')"
  proof
    assume "staticPattern False ?pre ?f ?e = staticPattern False ?pre' ?f' ?e'"
    from inj [OF this] have "?pre = ?pre'" "?f = ?f'" "?e = ?e'" by simp_all
    then show "p = p'" using comp(1) comp'(1) by metis
  next
    assume "p = p'"
    then show "staticPattern False ?pre ?f ?e = staticPattern False ?pre' ?f' ?e'" by simp
  qed
  have second: "(staticPattern True ?pre ?f ?e = staticPattern True ?pre' ?f' ?e')
      = (withoutExtension p = withoutExtension p')"
  proof
    assume "staticPattern True ?pre ?f ?e = staticPattern True ?pre' ?f' ?e'"
    from inj [OF this] have "?pre = ?pre'" "?f = ?f'" by simp_all
    then show "withoutExtension p = withoutExtension p'"
      by (simp add: comp(5) comp'(5))
  next
    assume "withoutExtension p = withoutExtension p'"
    then have "?pre @ ?f = ?pre' @ ?f'" by (simp add: comp(5) comp'(5))
    then have "?pre = ?pre' \<and> ?f = ?f'"
      using comp(2,3) comp'(2,3) by (intro split_unique) auto
    then show "staticPattern True ?pre ?f ?e = staticPattern True ?pre' ?f' ?e'"
      using staticPattern_clean_cong [of ?pre' ?f' ?e ?e'] by simp
  qed
  show ?thesis
  proof (intro conjI impI)
    assume "\<not> (m \<and> c)"
    then have "(m \<and> c) = False" by simp
    then show "(r_src (rr_route (createRouteFromPath p m c))
        = r_src (rr_route (createRouteFromPath p' m c))) = (p = p')"
      using src [of m c] first by (simp only:)
  next
    show "(r_src (rr_route (createRouteFromPath p True True))
        = r_src (rr_route (createRouteFromPath p' True True)))
        = (withoutExtension p = withoutExtension p')"
      using src [of True True] second by simp
  qed
qed

theorem createRouteFromPath_injective_witness:
  "isFilePath ''api/a.js'' \<and> isFilePath ''api/a.ts''
   \<and> r_src (rr_route (createRouteFromPath ''api/a.js'' False False))
       \<noteq> r_src (rr_route (createRouteFromPath ''api/a.ts'' False False))
   \<and> withoutExtension ''api/a.js'' = withoutExtension ''api/a.ts''
   \<and> r_src (rr_route (createRouteFromPath ''api/a.js'' True True))
       = r_src (rr_route (createRouteFromPath ''api/a.ts'' True True))"
proof -
  have fp: "isFilePath ''api/a.js''" "isFilePath ''api/a.ts''"
    by (simp_all add: isFilePath_def slash_def)
  have static: "\<forall>s\<in>set (splitOn slash ''api/a.js''). getSegmentName s = None"
    "\<forall>s\<in>set (splitOn slash ''api/a.ts''). getSegmentName s = None"
    by code_simp+
  have stem: "withoutExtension ''api/a.js'' = withoutExtension ''api/a.ts''"
    by code_simp
  have differ: "''api/a.js'' \<noteq> ''api/a.ts''" by simp
  note inst = createRouteFromPath_injective [OF fp static, of False False]
  from inst differ have "r_src (rr_route (createRouteFromPath ''api/a.js'' False False))
      \<noteq> r_src (rr_route (createRouteFromPath ''api/a.ts'' False False))"
    by blast
  moreover from inst stem have "r_src (rr_route (createRouteFromPath ''api/a.js'' True True))
      = r_src (rr_route (createRouteFromPath ''api/a.ts'' True True))"
    by blast
  ultimately show ?thesis using fp stem by blast
qed

section \<open>Idempotence of the normalisation\<close>

text \<open>
  C3, as stated, fails: \<open>getAbsolutePath\<close> is not idempotent on every path. Each call
  strips one extension, so a name with a dot in it loses a second piece at the second
  call: \<open>api/a.b.ts\<close> gives \<open>api/a.b\<close> and then \<open>api/a\<close>. And the regular expression
  replaces only the first match, which cannot cross a line terminator, so a segment with
  a placeholder on each of two lines has one replaced at each call.
\<close>

theorem getAbsolutePath_idempotent_counterexample:
  "getAbsolutePath ''api/a.b.ts'' = ''api/a.b''
   \<and> getAbsolutePath (getAbsolutePath ''api/a.b.ts'') = ''api/a''
   \<and> getAbsolutePath (getAbsolutePath ''api/a.b.ts'') \<noteq> getAbsolutePath ''api/a.b.ts''
   \<and> getAbsolutePath (''api/[a]'' @ [newline] @ ''[b].ts'') = ''api/1'' @ [newline] @ ''[b]''
   \<and> getAbsolutePath (getAbsolutePath (''api/[a]'' @ [newline] @ ''[b].ts''))
       = ''api/1'' @ [newline] @ ''1''
   \<and> getAbsolutePath (getAbsolutePath (''api/[a]'' @ [newline] @ ''[b].ts''))
       \<noteq> getAbsolutePath (''api/[a]'' @ [newline] @ ''[b].ts'')"
  by code_simp

text \<open>
  C3, amended. \<open>getAbsolutePath\<close> is idempotent on every path that holds no line
  terminator and whose name, the last component without the extension that \<open>path.parse\<close>
  finds, holds no dot: for such a path \<open>p\<close>,
  \<open>getAbsolutePath (getAbsolutePath p) = getAbsolutePath p\<close>. And it maps \<open>api/[id].ts\<close>
  and \<open>api/1.ts\<close> to the same string, \<open>api/1\<close>.
\<close>

theorem getAbsolutePath_idempotent:
  "((\<forall>ch\<in>set p. \<not> isLineTerminator ch) \<and> dot \<notin> set (p_name (parsePath p)) \<longrightarrow>
      getAbsolutePath (getAbsolutePath p) = getAbsolutePath p)
   \<and> getAbsolutePath ''api/[id].ts'' = getAbsolutePath ''api/1.ts''
   \<and> getAbsolutePath ''api/[id].ts'' = ''api/1''"
proof (intro conjI impI)
  assume "(\<forall>ch\<in>set p. \<not> isLineTerminator ch) \<and> dot \<notin> set (p_name (parsePath p))"
  then show "getAbsolutePath (getAbsolutePath p) = getAbsolutePath p"
    using getAbsolutePath_idem by blast
next
  show "getAbsolutePath ''api/[id].ts'' = getAbsolutePath ''api/1.ts''"
    by code_simp
next
  show "getAbsolutePath ''api/[id].ts'' = ''api/1''"
    by code_simp
qed

theorem getAbsolutePath_idempotent_witness:
  "list_all (\<lambda>ch. \<not> isLineTerminator ch) ''api/[id].ts''
   \<and> dot \<notin> set (p_name (parsePath ''api/[id].ts''))
   \<and> getAbsolutePath ''api/[id].ts'' = ''api/1''
   \<and> getAbsolutePath ''api/1'' = ''api/1''"
proof -
  have lines: "list_all (\<lambda>ch. \<not> isLineTerminator ch) ''api/[id].ts''"
    by code_simp
  have name: "dot \<notin> set (p_name (parsePath ''api/[id].ts''))"
    by code_simp
  note inst = getAbsolutePath_idempotent [of "''api/[id].ts''"]
  have hyp: "(\<forall>ch\<in>set ''api/[id].ts''. \<not> isLineTerminator ch)
      \<and> dot \<notin> set (p_name (parsePath ''api/[id].ts''))"
    using lines name by (simp only: list_all_iff) simp
  have val: "getAbsolutePath ''api/[id].ts'' = ''api/1''"
    using inst by (rule conjunct2 [THEN conjunct2])
  have "getAbsolutePath (getAbsolutePath ''api/[id].ts'') = getAbsolutePath ''api/[id].ts''"
    using inst [THEN conjunct1, THEN mp, OF hyp] .
  then have idem: "getAbsolutePath ''api/1'' = ''api/1''"
    unfolding val .
  show ?thesis
    using lines name val idem by (intro conjI)
qed

end
